theory Spec2Isabelle
  imports Complex_Main "HOL-Library.Word"
begin

unbundle bit_operations_syntax

section \<open>Python strings and dynamically typed values\<close>

text \<open>
  A Python \<open>str\<close> is modelled as a HOL \<open>string\<close> (code points below 256).
  \<open>startswith\<close>, \<open>endswith\<close> and the substring test \<open>sub in s\<close> are written
  out as recursive functions so that they evaluate on literals.
\<close>

fun startswith :: "'a list \<Rightarrow> 'a list \<Rightarrow> bool" where
  "startswith s [] = True"
| "startswith [] (p # ps) = False"
| "startswith (c # cs) (p # ps) = (c = p \<and> startswith cs ps)"

definition endswith :: "'a list \<Rightarrow> 'a list \<Rightarrow> bool" where
  "endswith s p = startswith (rev s) (rev p)"

fun str_contains :: "'a list \<Rightarrow> 'a list \<Rightarrow> bool" where
  "str_contains sub [] = (sub = [])"
| "str_contains sub (c # cs) = (startswith (c # cs) sub \<or> str_contains sub cs)"

text \<open>Values that a JSON-decoded configuration dictionary can hold in a field.\<close>

datatype pyval = PNone | PBool bool | PInt int | PStr string

fun truthy :: "pyval \<Rightarrow> bool" where
  "truthy PNone = False"
| "truthy (PBool b) = b"
| "truthy (PInt n) = (n \<noteq> 0)"
| "truthy (PStr s) = (s \<noteq> [])"

datatype py_exn = SocketError | StructError | ValueError | ReError | TypeError
  | OperationalError | EngineError

section \<open>RSS monitor: \<open>flux/core/rss_monitor.py\<close>\<close>

subsection \<open>FeedItem\<close>

record FeedItem =
  fi_title :: string
  fi_link :: string
  fi_magnet :: string
  fi_torrent_url :: string
  fi_pub_date :: string
  fi_size :: int
  fi_guid :: string

definition download_url :: "FeedItem \<Rightarrow> string" where
  "download_url fi =
     (if fi_magnet fi \<noteq> [] then fi_magnet fi
      else if fi_torrent_url fi \<noteq> [] then fi_torrent_url fi
      else if fi_link fi \<noteq> [] \<and>
              (endswith (fi_link fi) ''.torrent'' \<or> str_contains ''magnet:'' (fi_link fi))
           then fi_link fi
      else [])"

subsection \<open>FeedConfig and configuration load\<close>

text \<open>
  The dataclass does not check the types of its fields, so every field holds
  whatever value the dictionary had.
\<close>

record FeedConfig =
  fc_url :: pyval
  fc_name :: pyval
  fc_enabled :: pyval
  fc_interval_minutes :: pyval
  fc_include_pattern :: pyval
  fc_exclude_pattern :: pyval
  fc_save_path :: pyval
  fc_category :: pyval
  fc_auto_download :: pyval

definition field_or :: "(string \<rightharpoonup> pyval) \<Rightarrow> string \<Rightarrow> pyval \<Rightarrow> pyval" where
  "field_or d k dflt = (case d k of None \<Rightarrow> dflt | Some v \<Rightarrow> v)"

text \<open>
  \<open>from_dict\<close> keeps the keys of the dictionary that are dataclass fields and
  passes them to the constructor; a missing field takes the declared default.
\<close>

definition from_dict :: "(string \<rightharpoonup> pyval) \<Rightarrow> FeedConfig" where
  "from_dict d =
     \<lparr> fc_url = field_or d ''url'' (PStr ''''),
       fc_name = field_or d ''name'' (PStr ''''),
       fc_enabled = field_or d ''enabled'' (PBool True),
       fc_interval_minutes = field_or d ''interval_minutes'' (PInt 30),
       fc_include_pattern = field_or d ''include_pattern'' (PStr ''''),
       fc_exclude_pattern = field_or d ''exclude_pattern'' (PStr ''''),
       fc_save_path = field_or d ''save_path'' (PStr ''''),
       fc_category = field_or d ''category'' (PStr ''''),
       fc_auto_download = field_or d ''auto_download'' (PBool True) \<rparr>"

record qtimer =
  qt_running :: bool
  qt_interval_ms :: int

record RSSMonitor =
  feeds :: "pyval \<rightharpoonup> FeedConfig"
  timers :: "pyval \<rightharpoonup> qtimer"

text \<open>\<open>config.interval_minutes * 60 * 1000\<close> handed to \<open>QTimer.start\<close>.\<close>

fun interval_ms :: "pyval \<Rightarrow> py_exn + int" where
  "interval_ms (PInt n) = Inr (n * 60 * 1000)"
| "interval_ms (PBool b) = Inr ((if b then 1 else 0) * 60 * 1000)"
| "interval_ms (PStr s) = Inl TypeError"
| "interval_ms PNone = Inl TypeError"

definition stop_timer :: "RSSMonitor \<Rightarrow> pyval \<Rightarrow> RSSMonitor" where
  "stop_timer m u =
     (case timers m u of
        None \<Rightarrow> m
      | Some t \<Rightarrow> m\<lparr>timers := (timers m)(u \<mapsto> t\<lparr>qt_running := False\<rparr>)\<rparr>)"

definition restart_timer :: "RSSMonitor \<Rightarrow> FeedConfig \<Rightarrow> py_exn + RSSMonitor" where
  "restart_timer m c =
     (let m1 = stop_timer m (fc_url c) in
      if \<not> truthy (fc_enabled c) then Inr m1
      else (case interval_ms (fc_interval_minutes c) of
              Inl e \<Rightarrow> Inl e
            | Inr ms \<Rightarrow>
                Inr (m1\<lparr>timers := (timers m1)(fc_url c \<mapsto>
                                     \<lparr>qt_running = True, qt_interval_ms = ms\<rparr>)\<rparr>)))"

text \<open>
  \<open>add_feed\<close> stores the configuration first; an exception of the timer
  set-up leaves that store in place. The pair returned is the monitor after
  the call and the exception that escaped, if any.
\<close>

definition add_feed :: "RSSMonitor \<Rightarrow> FeedConfig \<Rightarrow> RSSMonitor \<times> py_exn option" where
  "add_feed m c =
     (let m1 = m\<lparr>feeds := (feeds m)(fc_url c \<mapsto> c)\<rparr> in
      case restart_timer m1 c of
        Inl e \<Rightarrow> (m1, Some e)
      | Inr m2 \<Rightarrow> (m2, None))"

text \<open>
  \<open>load_config\<close>: every dictionary is loaded inside its own \<open>try\<close>; an
  exception is logged and the loop goes on.
\<close>

fun load_config :: "RSSMonitor \<Rightarrow> (string \<rightharpoonup> pyval) list \<Rightarrow> RSSMonitor" where
  "load_config m [] = m"
| "load_config m (d # ds) =
     (let config = from_dict d in
      if truthy (fc_url config) then load_config (fst (add_feed m config)) ds
      else load_config m ds)"

definition empty_monitor :: RSSMonitor where
  "empty_monitor = \<lparr> feeds = Map.empty, timers = Map.empty \<rparr>"

section \<open>Torrent state resolution: \<open>flux/core/torrent.py\<close>\<close>

datatype TorrentState =
  DOWNLOADING | SEEDING | PAUSED | QUEUED | CHECKING | ERROR | STALLED
  | COMPLETED | METADATA | MOVING

text \<open>The states of \<open>lt.torrent_status.states\<close>.\<close>

datatype lt_state =
  queued_for_checking | checking_files | downloading_metadata | downloading
  | finished | seeding | allocating | checking_resume_data

text \<open>
  The status bundle returned by one \<open>handle.status()\<close> call. The attributes
  \<open>paused\<close>, \<open>auto_managed\<close> and \<open>flags\<close> exist in some versions of the
  binding only: \<open>None\<close> stands for an attribute whose read raises.
\<close>

record lt_status =
  errc_value :: int
  errc_message :: string
  st_state :: lt_state
  st_paused :: "bool option"
  st_auto_managed :: "bool option"
  st_flags :: "int option"
  st_has_metadata :: bool
  st_name :: string
  st_save_path :: string
  st_progress :: real
  total_wanted :: int
  total_wanted_done :: int
  all_time_download :: int
  all_time_upload :: int
  download_rate :: int
  upload_rate :: int
  st_num_seeds :: int
  st_num_peers :: int
  st_num_connections :: int

text \<open>
  The constants \<open>lt.torrent_flags.paused\<close> and \<open>lt.torrent_flags.auto_managed\<close>
  of the binding, \<open>None\<close> when the binding does not have them.
\<close>

record lt_flag_consts =
  tf_paused :: "int option"
  tf_auto_managed :: "int option"

definition flags_fallback :: "lt_flag_consts \<Rightarrow> lt_status \<Rightarrow> bool \<Rightarrow> bool \<times> bool" where
  "flags_fallback k s p0 =
     (case st_flags s of
        None \<Rightarrow> (p0, False)
      | Some f \<Rightarrow>
          (case tf_paused k of
             None \<Rightarrow> (p0, False)
           | Some mp \<Rightarrow>
               (case tf_auto_managed k of
                  None \<Rightarrow> (f AND mp \<noteq> 0, False)
                | Some ma \<Rightarrow> (f AND mp \<noteq> 0, f AND ma \<noteq> 0))))"

text \<open>The pair \<open>(is_paused, is_auto_managed)\<close> as \<open>_resolve_state\<close> reads it.\<close>

definition paused_flags :: "lt_flag_consts \<Rightarrow> lt_status \<Rightarrow> bool \<times> bool" where
  "paused_flags k s =
     (case st_paused s of
        None \<Rightarrow> flags_fallback k s False
      | Some p \<Rightarrow>
          (case st_auto_managed s of
             None \<Rightarrow> flags_fallback k s p
           | Some a \<Rightarrow> (p, a)))"

definition resolve_state :: "lt_flag_consts \<Rightarrow> lt_status \<Rightarrow> TorrentState" where
  "resolve_state k s =
     (if errc_value s \<noteq> 0 then ERROR
      else
        let lt_st = st_state s;
            is_paused = fst (paused_flags k s);
            is_auto_managed = snd (paused_flags k s)
        in
          if is_paused \<and> \<not> is_auto_managed then PAUSED
          else if is_paused \<and> is_auto_managed then QUEUED
          else if lt_st = checking_files \<or> lt_st = checking_resume_data then CHECKING
          else if lt_st = downloading_metadata then METADATA
          else if lt_st = downloading then
            (if download_rate s < 1024 \<and> st_num_seeds s > 0 then STALLED
             else DOWNLOADING)
          else if lt_st = finished then COMPLETED
          else if lt_st = seeding then SEEDING
          else DOWNLOADING)"

text \<open>
  The decision tree of the specification, as an ordered table of
  (condition, state) rows; the first row whose condition holds decides.
\<close>

fun first_row :: "(bool \<times> 'a) list \<Rightarrow> 'a \<Rightarrow> 'a" where
  "first_row [] dflt = dflt"
| "first_row ((c, v) # rows) dflt = (if c then v else first_row rows dflt)"

definition state_decision_tree ::
  "int \<Rightarrow> bool \<Rightarrow> bool \<Rightarrow> lt_state \<Rightarrow> int \<Rightarrow> int \<Rightarrow> TorrentState" where
  "state_decision_tree error_code engine_paused auto_mgd engine_state rate seeds =
     first_row
       [ (error_code \<noteq> 0, ERROR),
         (engine_paused \<and> \<not> auto_mgd, PAUSED),
         (engine_paused \<and> auto_mgd, QUEUED),
         (engine_state = checking_files \<or> engine_state = checking_resume_data, CHECKING),
         (engine_state = downloading_metadata, METADATA),
         (engine_state = downloading \<and> rate < 1024 \<and> seeds > 0, STALLED),
         (engine_state = downloading, DOWNLOADING),
         (engine_state = finished, COMPLETED),
         (engine_state = seeding, SEEDING) ]
       DOWNLOADING"

section \<open>Peer filter: \<open>flux/core/peer_filter.py\<close>\<close>

































subsection \<open>Sample environment for concrete evaluation\<close>



text \<open>
  \<open>sample_inet_aton\<close> follows \<open>socket.inet_aton\<close> on addresses whose parts
  are written in decimal without a leading zero: a string with a NUL
  character raises \<open>ValueError\<close>; one to four parts separated by dots are
  read as the C library reads them (\<open>a\<close>, \<open>a.b\<close>, \<open>a.b.c\<close>, \<open>a.b.c.d\<close>, the
  last part filling the remaining bytes); anything else raises
  \<open>socket.error\<close>. The other spellings that the C library accepts (octal,
  hexadecimal, trailing white space) are outside this sample.
  \<open>is_dotted_quad\<close> is the shape the specification names: four decimal
  parts, each at most 255.
\<close>

definition is_digit :: "char \<Rightarrow> bool" where
  "is_digit c = (48 \<le> (of_char c :: nat) \<and> (of_char c :: nat) \<le> 57)"






section \<open>Torrent wrapper and snapshots: \<open>flux/core/torrent.py\<close>\<close>

subsection \<open>Object store\<close>

text \<open>
  Python lists and snapshot objects are shared by reference: the worker, a
  torrent and an emitted statistics object may hold the same list or the same
  snapshot. They live in a store, one address space per kind of object.
  A new object takes the next free address. Lists are mutated in place
  (\<open>append\<close>, \<open>pop\<close>, \<open>remove\<close>); the source never assigns to a field of a
  \<open>TorrentSnapshot\<close>, so the store has no operation that writes a snapshot
  at an address in use.
\<close>

type_synonym ref = nat

record TorrentSnapshot =
  ts_valid :: bool
  ts_state :: TorrentState
  ts_name :: string
  ts_info_hash :: string
  ts_save_path :: string
  ts_has_metadata :: bool
  ts_progress :: real
  ts_total_size :: int
  ts_completed_size :: int
  ts_total_downloaded :: int
  ts_total_uploaded :: int
  ts_download_speed :: int
  ts_upload_speed :: int
  ts_num_seeds :: int
  ts_num_peers :: int
  ts_num_connections :: int
  ts_ratio :: real
  ts_eta :: int
  ts_error :: string
  ts_category :: string
  ts_tags :: ref
  ts_added_time :: real
  ts_download_limit :: int
  ts_upload_limit :: int

record store =
  int_lists :: "ref \<Rightarrow> int list"
  str_lists :: "ref \<Rightarrow> string list"
  snaps :: "ref \<Rightarrow> TorrentSnapshot"
  next_il :: ref
  next_sl :: ref
  next_sn :: ref

definition alloc_il :: "store \<Rightarrow> int list \<Rightarrow> store \<times> ref" where
  "alloc_il st xs =
     (st\<lparr> int_lists := (int_lists st)(next_il st := xs), next_il := Suc (next_il st) \<rparr>,
      next_il st)"

definition alloc_sl :: "store \<Rightarrow> string list \<Rightarrow> store \<times> ref" where
  "alloc_sl st xs =
     (st\<lparr> str_lists := (str_lists st)(next_sl st := xs), next_sl := Suc (next_sl st) \<rparr>,
      next_sl st)"

definition alloc_sn :: "store \<Rightarrow> TorrentSnapshot \<Rightarrow> store \<times> ref" where
  "alloc_sn st s =
     (st\<lparr> snaps := (snaps st)(next_sn st := s), next_sn := Suc (next_sn st) \<rparr>,
      next_sn st)"

definition write_il :: "store \<Rightarrow> ref \<Rightarrow> int list \<Rightarrow> store" where
  "write_il st r xs = st\<lparr> int_lists := (int_lists st)(r := xs) \<rparr>"

definition write_sl :: "store \<Rightarrow> ref \<Rightarrow> string list \<Rightarrow> store" where
  "write_sl st r xs = st\<lparr> str_lists := (str_lists st)(r := xs) \<rparr>"

subsection \<open>The engine as seen through a handle\<close>

text \<open>
  What the methods of one \<open>lt.torrent_handle\<close> return while one operation of
  the worker runs; \<open>Inl msg\<close> is an exception with that message.
\<close>

record handle_view =
  hv_is_valid :: "string + bool"
  hv_status :: "string + lt_status"
  hv_info_hash :: "string + string"
  hv_download_limit :: "string + int"
  hv_upload_limit :: "string + int"

record Torrent =
  t_handle :: nat
  t_category :: string
  t_tags :: ref
  t_added_time :: real
  t_speed_history_dl :: ref
  t_speed_history_ul :: ref
  t_max_history :: nat
  t_snap :: ref

subsection \<open>Snapshot\<close>

definition str_or :: "string \<Rightarrow> string \<Rightarrow> string" where
  "str_or a b = (if a \<noteq> [] then a else b)"

text \<open>
  \<open>TorrentSnapshot(valid=False, state=ERROR, name=..., info_hash=..., category=...,
  tags=..., added_time=..., error=...)\<close>: the other fields take their defaults.
\<close>

definition failure_snapshot ::
  "string \<Rightarrow> string \<Rightarrow> string \<Rightarrow> ref \<Rightarrow> real \<Rightarrow> string \<Rightarrow> TorrentSnapshot" where
  "failure_snapshot nm ih cat tags added err =
     \<lparr> ts_valid = False, ts_state = ERROR, ts_name = nm, ts_info_hash = ih,
       ts_save_path = '''', ts_has_metadata = False, ts_progress = 0, ts_total_size = 0,
       ts_completed_size = 0, ts_total_downloaded = 0, ts_total_uploaded = 0,
       ts_download_speed = 0, ts_upload_speed = 0, ts_num_seeds = 0, ts_num_peers = 0,
       ts_num_connections = 0, ts_ratio = 0, ts_eta = 0, ts_error = err,
       ts_category = cat, ts_tags = tags, ts_added_time = added,
       ts_download_limit = 0, ts_upload_limit = 0 \<rparr>"

text \<open>\<open>TorrentSnapshot()\<close>, with the list that \<open>__post_init__\<close> creates.\<close>

definition default_snapshot :: "ref \<Rightarrow> TorrentSnapshot" where
  "default_snapshot tags = failure_snapshot ''Unknown'' '''' '''' tags 0 ''''"

definition resolve_name :: "handle_view \<Rightarrow> lt_status \<Rightarrow> TorrentSnapshot \<Rightarrow> string" where
  "resolve_name hv s old =
     (if st_has_metadata s then st_name s
      else if st_name s \<noteq> [] then st_name s
      else (case hv_info_hash hv of
              Inr h \<Rightarrow> h
            | Inl m \<Rightarrow> str_or (ts_name old) ''Unknown''))"

definition resolve_eta :: "lt_status \<Rightarrow> int" where
  "resolve_eta s =
     (if download_rate s > 0 then
        (let remaining = total_wanted s - total_wanted_done s in
         if remaining > 0 then \<lfloor>real_of_int remaining / real_of_int (download_rate s)\<rfloor>
         else 0)
      else 0)"

definition resolve_limits :: "handle_view \<Rightarrow> int \<times> int" where
  "resolve_limits hv =
     (case hv_download_limit hv of
        Inl m \<Rightarrow> (0, 0)
      | Inr d \<Rightarrow> (case hv_upload_limit hv of Inl m \<Rightarrow> (0, 0) | Inr u \<Rightarrow> (d, u)))"

definition captured_snapshot ::
  "lt_flag_consts \<Rightarrow> handle_view \<Rightarrow> lt_status \<Rightarrow> string \<Rightarrow> Torrent \<Rightarrow> TorrentSnapshot \<Rightarrow> ref
     \<Rightarrow> TorrentSnapshot" where
  "captured_snapshot k hv s h t old tags =
     \<lparr> ts_valid = True, ts_state = resolve_state k s, ts_name = resolve_name hv s old,
       ts_info_hash = h, ts_save_path = st_save_path s,
       ts_has_metadata = st_has_metadata s, ts_progress = st_progress s,
       ts_total_size = (if st_has_metadata s then total_wanted s else 0),
       ts_completed_size = total_wanted_done s,
       ts_total_downloaded = all_time_download s, ts_total_uploaded = all_time_upload s,
       ts_download_speed = download_rate s, ts_upload_speed = upload_rate s,
       ts_num_seeds = st_num_seeds s, ts_num_peers = st_num_peers s,
       ts_num_connections = st_num_connections s,
       ts_ratio = (if all_time_download s > 0
                   then real_of_int (all_time_upload s) / real_of_int (all_time_download s)
                   else 0),
       ts_eta = resolve_eta s,
       ts_error = (if errc_value s \<noteq> 0 then errc_message s else ''''),
       ts_category = t_category t, ts_tags = tags, ts_added_time = t_added_time t,
       ts_download_limit = fst (resolve_limits hv),
       ts_upload_limit = snd (resolve_limits hv) \<rparr>"

text \<open>
  The value of the new snapshot, given the address of the fresh copy of the
  tag list. The three outcomes of the \<open>try\<close> block: the handle is invalid,
  the status is captured, or a call raised and the handler builds the
  snapshot from the cached one.
\<close>

definition snapshot_value ::
  "lt_flag_consts \<Rightarrow> handle_view \<Rightarrow> Torrent \<Rightarrow> TorrentSnapshot \<Rightarrow> ref \<Rightarrow> TorrentSnapshot" where
  "snapshot_value k hv t old tags =
     (let on_error = (\<lambda>m. failure_snapshot (str_or (ts_name old) ''Error'') (ts_info_hash old)
                              (t_category t) tags (t_added_time t) m)
      in case hv_is_valid hv of
           Inl m \<Rightarrow> on_error m
         | Inr False \<Rightarrow>
             failure_snapshot (str_or (ts_name old) ''Invalid'') (ts_info_hash old)
               (t_category t) tags (t_added_time t) ''Handle is invalid''
         | Inr True \<Rightarrow>
             (case hv_status hv of
                Inl m \<Rightarrow> on_error m
              | Inr s \<Rightarrow>
                  (case hv_info_hash hv of
                     Inl m \<Rightarrow> on_error m
                   | Inr h \<Rightarrow> captured_snapshot k hv s h t old tags)))"

text \<open>
  \<open>Torrent.snapshot\<close>: copy the tag list (\<open>self._tags[:]\<close>), build a new
  snapshot object and make \<open>self._snap\<close> point to it. The snapshot returned
  is the one at \<open>t_snap\<close> of the torrent returned.
\<close>

definition snapshot ::
  "lt_flag_consts \<Rightarrow> (nat \<Rightarrow> handle_view) \<Rightarrow> store \<Rightarrow> Torrent \<Rightarrow> store \<times> Torrent" where
  "snapshot k eng st t =
     (let (st1, tags) = alloc_sl st (str_lists st (t_tags t));
          (st2, r) = alloc_sn st1
                       (snapshot_value k (eng (t_handle t)) t (snaps st (t_snap t)) tags)
      in (st2, t\<lparr> t_snap := r \<rparr>))"

text \<open>\<open>Torrent.__init__\<close>; \<open>tags\<close> is the list the caller has just built.\<close>

definition new_Torrent ::
  "lt_flag_consts \<Rightarrow> (nat \<Rightarrow> handle_view) \<Rightarrow> real \<Rightarrow> store \<Rightarrow> nat \<Rightarrow> string \<Rightarrow> string list
     \<Rightarrow> store \<times> Torrent" where
  "new_Torrent k eng now st handle category tags =
     (let (st1, rtags) = alloc_sl st tags;
          (st2, rdl) = alloc_il st1 [];
          (st3, rul) = alloc_il st2 [];
          (st4, rdef) = alloc_sl st3 [];
          (st5, rsnap) = alloc_sn st4 (default_snapshot rdef)
      in snapshot k eng st5
           \<lparr> t_handle = handle, t_category = category, t_tags = rtags, t_added_time = now,
             t_speed_history_dl = rdl, t_speed_history_ul = rul, t_max_history = 120,
             t_snap = rsnap \<rparr>)"

text \<open>\<open>record_speed\<close>: two appends, then \<open>pop(0)\<close> on a list longer than the bound.\<close>

definition record_speed :: "store \<Rightarrow> Torrent \<Rightarrow> store" where
  "record_speed st t =
     (let s = snaps st (t_snap t);
          dl = int_lists st (t_speed_history_dl t) @ [ts_download_speed s];
          st1 = write_il st (t_speed_history_dl t) dl;
          ul = int_lists st1 (t_speed_history_ul t) @ [ts_upload_speed s];
          st2 = write_il st1 (t_speed_history_ul t) ul;
          st3 = (if length (int_lists st2 (t_speed_history_dl t)) > t_max_history t
                 then write_il st2 (t_speed_history_dl t)
                        (tl (int_lists st2 (t_speed_history_dl t)))
                 else st2)
      in if length (int_lists st3 (t_speed_history_ul t)) > t_max_history t
         then write_il st3 (t_speed_history_ul t) (tl (int_lists st3 (t_speed_history_ul t)))
         else st3)"

text \<open>Tag and category edits: the tag list is changed in place.\<close>

definition add_tag :: "store \<Rightarrow> Torrent \<Rightarrow> string \<Rightarrow> store" where
  "add_tag st t tag =
     (if tag \<notin> set (str_lists st (t_tags t))
      then write_sl st (t_tags t) (str_lists st (t_tags t) @ [tag])
      else st)"

definition remove_tag :: "store \<Rightarrow> Torrent \<Rightarrow> string \<Rightarrow> store" where
  "remove_tag st t tag =
     (if tag \<in> set (str_lists st (t_tags t))
      then write_sl st (t_tags t) (remove1 tag (str_lists st (t_tags t)))
      else st)"

definition set_category :: "Torrent \<Rightarrow> string \<Rightarrow> Torrent" where
  "set_category t c = t\<lparr> t_category := c \<rparr>"

section \<open>Session worker: \<open>flux/core/session_worker.py\<close>\<close>

subsection \<open>Resume database\<close>

text \<open>
  The SQLite file \<open>resume.db\<close>: the table \<open>schema_version\<close> (absent, empty,
  or holding the row \<open>id = 1\<close>) and the table \<open>resume_data\<close> (absent or
  present). A \<open>resume_data\<close> table has the seven columns of the
  \<open>CREATE TABLE\<close> statement and the integer columns added to it later, each
  with its default. A statement on a missing table, and \<open>ADD COLUMN\<close> of a
  column that exists, raise \<open>sqlite3.OperationalError\<close>.
\<close>

record resume_row =
  rr_info_hash :: string
  rr_resume_data :: string
  rr_name :: string
  rr_category :: string
  rr_tags :: string
  rr_added_time :: real
  rr_save_path :: string
  rr_extra :: "(string \<times> int) list"

record resume_table =
  rt_extra_columns :: "(string \<times> int) list"
  rt_rows :: "resume_row list"

record resume_db =
  db_schema_version :: "int option option"
  db_resume_data :: "resume_table option"

definition SCHEMA_VERSION :: int where
  "SCHEMA_VERSION = 2"

definition base_columns :: "string list" where
  "base_columns =
     [''info_hash'', ''resume_data'', ''name'', ''category'', ''tags'', ''added_time'',
      ''save_path'']"

definition has_column :: "resume_table \<Rightarrow> string \<Rightarrow> bool" where
  "has_column tbl c = (c \<in> set base_columns \<or> c \<in> set (map fst (rt_extra_columns tbl)))"

definition create_schema_version_table :: "resume_db \<Rightarrow> resume_db" where
  "create_schema_version_table db =
     (case db_schema_version db of
        None \<Rightarrow> db\<lparr> db_schema_version := Some None \<rparr>
      | Some v \<Rightarrow> db)"

definition create_resume_data_table :: "resume_db \<Rightarrow> resume_db" where
  "create_resume_data_table db =
     (case db_resume_data db of
        None \<Rightarrow> db\<lparr> db_resume_data := Some \<lparr> rt_extra_columns = [], rt_rows = [] \<rparr> \<rparr>
      | Some t \<Rightarrow> db)"

definition get_schema_version :: "resume_db \<Rightarrow> int" where
  "get_schema_version db =
     (case db_schema_version db of
        None \<Rightarrow> 0
      | Some None \<Rightarrow> 0
      | Some (Some v) \<Rightarrow> v)"

definition set_schema_version :: "resume_db \<Rightarrow> int \<Rightarrow> py_exn + resume_db" where
  "set_schema_version db version =
     (case db_schema_version db of
        None \<Rightarrow> Inl OperationalError
      | Some v \<Rightarrow> Inr (db\<lparr> db_schema_version := Some (Some version) \<rparr>))"

definition add_column :: "resume_db \<Rightarrow> string \<Rightarrow> int \<Rightarrow> py_exn + resume_db" where
  "add_column db c dflt =
     (case db_resume_data db of
        None \<Rightarrow> Inl OperationalError
      | Some tbl \<Rightarrow>
          if has_column tbl c then Inl OperationalError
          else Inr (db\<lparr> db_resume_data :=
                 Some \<lparr> rt_extra_columns = rt_extra_columns tbl @ [(c, dflt)],
                        rt_rows = map (\<lambda>r. r\<lparr> rr_extra := rr_extra r @ [(c, dflt)] \<rparr>)
                                      (rt_rows tbl) \<rparr> \<rparr>))"

text \<open>
  \<open>_migrate_schema\<close>. Both \<open>ALTER TABLE\<close> statements stand in one \<open>try\<close>:
  when the first raises, the second does not run.
\<close>

definition migrate_schema :: "resume_db \<Rightarrow> int \<Rightarrow> py_exn + resume_db" where
  "migrate_schema db from_version =
     (let db1 = (if from_version < 1 then create_resume_data_table db else db);
          db2 = (if from_version < 2 then
                   (case add_column db1 ''dl_limit'' 0 of
                      Inl e \<Rightarrow> db1
                    | Inr d \<Rightarrow>
                        (case add_column d ''ul_limit'' 0 of Inl e \<Rightarrow> d | Inr d' \<Rightarrow> d'))
                 else db1)
      in set_schema_version db2 SCHEMA_VERSION)"

text \<open>
  \<open>_init_resume_db\<close> on the database found on disk: the database it leaves
  behind, and the exception that escaped, if any.
\<close>

definition init_resume_db :: "resume_db \<Rightarrow> resume_db \<times> py_exn option" where
  "init_resume_db disk =
     (let db = create_schema_version_table disk;
          version = get_schema_version db
      in if version = 0 then
           (let db1 = create_resume_data_table db in
            case set_schema_version db1 SCHEMA_VERSION of
              Inl e \<Rightarrow> (db1, Some e)
            | Inr db2 \<Rightarrow> (db2, None))
         else if version < SCHEMA_VERSION then
           (case migrate_schema db version of
              Inl e \<Rightarrow> (db, Some e)
            | Inr db2 \<Rightarrow> (db2, None))
         else (db, None))"

definition select_rows :: "resume_db \<Rightarrow> py_exn + resume_row list" where
  "select_rows db =
     (case db_resume_data db of
        None \<Rightarrow> Inl OperationalError
      | Some tbl \<Rightarrow> Inr (rt_rows tbl))"

text \<open>
  \<open>DELETE FROM resume_data WHERE info_hash = ?\<close> followed by \<open>commit\<close>.
  \<open>fault\<close> is the exception that SQLite raises on this statement for a
  reason outside the tables (the database is locked or read-only, an I/O
  error, the connection is used from another thread), if any; the row is then
  still there.
\<close>

definition delete_row :: "py_exn option \<Rightarrow> resume_db \<Rightarrow> string \<Rightarrow> py_exn + resume_db" where
  "delete_row fault db h =
     (case fault of
        Some e \<Rightarrow> Inl e
      | None \<Rightarrow>
          (case db_resume_data db of
             None \<Rightarrow> Inl OperationalError
           | Some tbl \<Rightarrow>
               Inr (db\<lparr> db_resume_data :=
                      Some (tbl\<lparr> rt_rows := filter (\<lambda>r. rr_info_hash r \<noteq> h)
                                                  (rt_rows tbl) \<rparr>) \<rparr>)))"


subsection \<open>Events, environment and worker state\<close>

record SessionStats =
  ss_download_rate :: int
  ss_upload_rate :: int
  ss_dht_nodes :: int
  ss_dl_history :: ref
  ss_ul_history :: ref
  ss_torrent_count :: nat
  ss_torrents :: "ref list"

text \<open>
  What the engine returns for the detail view of a torrent (files, peers,
  trackers, piece states, piece length); the getters of \<open>Torrent\<close> catch
  every exception of the engine and return an empty list or zero.
\<close>

record engine_detail =
  ed_files :: "string list"
  ed_peers :: "string list"
  ed_trackers :: "string list"
  ed_pieces :: "int list"
  ed_piece_length :: int

record DetailData =
  dd_info_hash :: string
  dd_engine :: engine_detail
  dd_dl_history :: ref
  dd_ul_history :: ref

text \<open>The outbound signals of the worker.\<close>

datatype event =
  TorrentAdded string
  | TorrentRemoved string
  | TorrentFinished string
  | TorrentError string string
  | TorrentMetadata string
  | StatsUpdated SessionStats
  | DetailUpdated DetailData
  | PeerBanned string string
  | MagnetUriReady string
  | Started
  | Stopped

record add_torrent_params =
  atp_source :: string
  atp_save_path :: pyval
  atp_flags :: int

text \<open>
  The environment of one operation of the worker: what the engine, the JSON
  decoder, the clock and the disk answer while the operation runs. \<open>Inl msg\<close>
  is an exception with that message. \<open>e_db_fault\<close> is the exception that a
  \<open>DELETE\<close> on the resume database raises during the operation, if any.
\<close>

record env =
  e_flags :: lt_flag_consts
  e_flag_paused :: int
  e_flag_auto_managed :: int
  e_now :: real
  e_json_loads :: "string \<Rightarrow> string + string list"
  e_new_session :: "string + unit"
  e_parse_magnet_uri :: "string \<Rightarrow> string + add_torrent_params"
  e_read_resume_data :: "string \<Rightarrow> string + add_torrent_params"
  e_add_torrent :: "add_torrent_params \<Rightarrow> string + nat"
  e_remove_torrent :: "nat \<Rightarrow> bool \<Rightarrow> string + unit"
  e_handle :: "nat \<Rightarrow> handle_view"
  e_detail :: "nat \<Rightarrow> engine_detail"
  e_session_status :: "string + (int \<times> int \<times> int)"
  e_disk_db :: resume_db
  e_db_fault :: "py_exn option"

text \<open>
  The worker. \<open>w_torrents\<close> is the dictionary \<open>_torrents\<close> in insertion
  order; \<open>w_session\<close> tells whether \<open>_session\<close> is set; \<open>w_events\<close> holds the
  signals emitted so far, oldest first.
\<close>

record SessionWorker =
  w_cfg :: "string \<rightharpoonup> pyval"
  w_session :: bool
  w_torrents :: "(string \<times> Torrent) list"
  w_resume_db :: "resume_db option"
  w_session_dl_history :: ref
  w_session_ul_history :: ref
  w_max_session_history :: nat
  w_focused_hash :: string
  w_store :: store
  w_events :: "event list"

definition empty_store :: store where
  "empty_store =
     \<lparr> int_lists = (\<lambda>r. []), str_lists = (\<lambda>r. []), snaps = (\<lambda>r. default_snapshot 0),
       next_il = 0, next_sl = 0, next_sn = 0 \<rparr>"

definition new_SessionWorker :: "(string \<rightharpoonup> pyval) \<Rightarrow> SessionWorker" where
  "new_SessionWorker cfg =
     (let (st1, rdl) = alloc_il empty_store [];
          (st2, rul) = alloc_il st1 []
      in \<lparr> w_cfg = cfg, w_session = False, w_torrents = [], w_resume_db = None,
           w_session_dl_history = rdl, w_session_ul_history = rul,
           w_max_session_history = 300, w_focused_hash = '''', w_store = st2,
           w_events = [] \<rparr>)"

subsection \<open>Dictionary operations\<close>

fun dict_set :: "('k \<times> 'v) list \<Rightarrow> 'k \<Rightarrow> 'v \<Rightarrow> ('k \<times> 'v) list" where
  "dict_set [] k v = [(k, v)]"
| "dict_set ((k', v') # d) k v =
     (if k' = k then (k, v) # d else (k', v') # dict_set d k v)"

definition dict_del :: "('k \<times> 'v) list \<Rightarrow> 'k \<Rightarrow> ('k \<times> 'v) list" where
  "dict_del d k = filter (\<lambda>kv. fst kv \<noteq> k) d"

subsection \<open>Start-up\<close>

text \<open>
  The body of the loop of \<open>_load_resume_data\<close>: the row is loaded inside
  its own \<open>try\<close>; a row that fails is logged and skipped. The objects that
  \<open>Torrent(...)\<close> created stay in the store when the later
  \<open>handle.info_hash()\<close> raises.
\<close>

definition load_row ::
  "env \<Rightarrow> store \<Rightarrow> (string \<times> Torrent) list \<Rightarrow> resume_row
     \<Rightarrow> store \<times> (string \<times> Torrent) list" where
  "load_row en st ts row =
     (case e_read_resume_data en (rr_resume_data row) of
        Inl m \<Rightarrow> (st, ts)
      | Inr atp \<Rightarrow>
          (case e_add_torrent en atp of
             Inl m \<Rightarrow> (st, ts)
           | Inr handle \<Rightarrow>
               (case (if rr_tags row \<noteq> [] then e_json_loads en (rr_tags row) else Inr []) of
                  Inl m \<Rightarrow> (st, ts)
                | Inr tags \<Rightarrow>
                    (let (st1, t) = new_Torrent (e_flags en) (e_handle en) (e_now en) st
                                      handle (rr_category row) tags;
                         t1 = t\<lparr> t_added_time :=
                                   (if rr_added_time row \<noteq> 0 then rr_added_time row
                                    else e_now en) \<rparr>
                     in case hv_info_hash (e_handle en handle) of
                          Inl m \<Rightarrow> (st1, ts)
                        | Inr h \<Rightarrow> (st1, dict_set ts h t1)))))"

fun load_rows ::
  "env \<Rightarrow> store \<Rightarrow> (string \<times> Torrent) list \<Rightarrow> resume_row list
     \<Rightarrow> store \<times> (string \<times> Torrent) list" where
  "load_rows en st ts [] = (st, ts)"
| "load_rows en st ts (row # rows) =
     (let (st1, ts1) = load_row en st ts row in load_rows en st1 ts1 rows)"

text \<open>
  \<open>initialize\<close>: create the engine session, open and migrate the resume
  database, load the persisted torrents, start the timers and emit
  \<open>started\<close>. An exception leaves the worker as far as it got. The engine's
  own state (settings, IP filter) and the timers are not part of the worker
  state modelled here.
\<close>

definition initialize :: "env \<Rightarrow> SessionWorker \<Rightarrow> SessionWorker" where
  "initialize en w =
     (case e_new_session en of
        Inl m \<Rightarrow> w
      | Inr u \<Rightarrow>
          (let w1 = w\<lparr> w_session := True \<rparr> in
           case init_resume_db (e_disk_db en) of
             (db, Some e) \<Rightarrow> w1\<lparr> w_resume_db := Some db \<rparr>
           | (db, None) \<Rightarrow>
               (let w2 = w1\<lparr> w_resume_db := Some db \<rparr> in
                case select_rows db of
                  Inl e \<Rightarrow> w2
                | Inr rows \<Rightarrow>
                    (let (st, ts) = load_rows en (w_store w2) (w_torrents w2) rows
                     in w2\<lparr> w_store := st, w_torrents := ts,
                            w_events := w_events w2 @ [Started] \<rparr>))))"

subsection \<open>Adding and removing torrents\<close>

definition is_space :: "char \<Rightarrow> bool" where
  "is_space c = ((of_char c :: nat) \<in> {9, 10, 11, 12, 13, 28, 29, 30, 31, 32, 133, 160})"

definition strip :: "string \<Rightarrow> string" where
  "strip s = rev (dropWhile is_space (rev (dropWhile is_space s)))"

definition magnet_flags :: "env \<Rightarrow> bool \<Rightarrow> int \<Rightarrow> int" where
  "magnet_flags en paused flags =
     (if paused then (flags OR e_flag_paused en) AND NOT (e_flag_auto_managed en)
      else flags OR e_flag_auto_managed en)"

text \<open>
  \<open>add_magnet\<close>. The guard on the URI logs an error and returns; every
  exception below it is caught and logged. The assignment to \<open>atp.save_path\<close>
  raises when the value is not a string (no path given and none configured).
\<close>

definition add_magnet ::
  "env \<Rightarrow> SessionWorker \<Rightarrow> string \<Rightarrow> string \<Rightarrow> string \<Rightarrow> string \<Rightarrow> bool \<Rightarrow> SessionWorker" where
  "add_magnet en w uri save_path category tags_json paused =
     (if \<not> w_session w then w
      else if uri = [] \<or> \<not> startswith (strip uri) ''magnet:'' then w
      else
        (case (if tags_json \<noteq> [] then e_json_loads en tags_json else Inr []) of
           Inl m \<Rightarrow> w
         | Inr tags \<Rightarrow>
             (case e_parse_magnet_uri en (strip uri) of
                Inl m \<Rightarrow> w
              | Inr atp \<Rightarrow>
                  (case (if save_path \<noteq> [] then PStr save_path
                         else field_or (w_cfg w) ''default_save_path'' PNone) of
                     PStr path \<Rightarrow>
                       (let atp1 = atp\<lparr> atp_save_path := PStr path \<rparr>;
                            atp2 = atp1\<lparr> atp_flags :=
                                          magnet_flags en paused (atp_flags atp1) \<rparr>
                        in case e_add_torrent en atp2 of
                             Inl m \<Rightarrow> w
                           | Inr handle \<Rightarrow>
                               (case hv_info_hash (e_handle en handle) of
                                  Inl m \<Rightarrow> w
                                | Inr info_hash \<Rightarrow>
                                    if info_hash \<notin> set (map fst (w_torrents w)) then
                                      (let (st, torrent) =
                                             new_Torrent (e_flags en) (e_handle en) (e_now en)
                                               (w_store w) handle category tags
                                       in w\<lparr> w_store := st,
                                             w_torrents :=
                                               dict_set (w_torrents w) info_hash torrent,
                                             w_events :=
                                               w_events w @ [TorrentAdded info_hash] \<rparr>)
                                    else w))
                   | _ \<Rightarrow> w))))"

text \<open>
  \<open>remove_torrent\<close>. The call into the engine stands outside any \<open>try\<close>: when
  it raises, the exception leaves the slot (\<open>Inl\<close>) and nothing has changed.
  A failure of the \<open>DELETE\<close> statement is logged and swallowed: the entry
  has left the table by then, and the signal is emitted all the same.
\<close>

definition remove_torrent ::
  "env \<Rightarrow> SessionWorker \<Rightarrow> string \<Rightarrow> bool \<Rightarrow> string + SessionWorker" where
  "remove_torrent en w info_hash delete_files =
     (case map_of (w_torrents w) info_hash of
        None \<Rightarrow> Inr w
      | Some torrent \<Rightarrow>
          if \<not> w_session w then Inr w
          else
            (case e_remove_torrent en (t_handle torrent) delete_files of
               Inl m \<Rightarrow> Inl m
             | Inr u \<Rightarrow>
                 (let w1 = w\<lparr> w_torrents := dict_del (w_torrents w) info_hash \<rparr>;
                      w2 = (case w_resume_db w1 of
                              None \<Rightarrow> w1
                            | Some db \<Rightarrow>
                                (case delete_row (e_db_fault en) db info_hash of
                                   Inl e \<Rightarrow> w1
                                 | Inr db' \<Rightarrow> w1\<lparr> w_resume_db := Some db' \<rparr>))
                  in Inr (w2\<lparr> w_events := w_events w2 @ [TorrentRemoved info_hash] \<rparr>))))"

subsection \<open>Statistics tick\<close>

text \<open>
  The session rates: read the engine's status and append to the two session
  histories, each trimmed to the bound; when the engine raises, the rates are
  zero and the histories stay.
\<close>

definition record_session_rates ::
  "env \<Rightarrow> SessionWorker \<Rightarrow> store \<Rightarrow> (int \<times> int \<times> int) \<times> store" where
  "record_session_rates en w st =
     (case e_session_status en of
        Inl m \<Rightarrow> ((0, 0, 0), st)
      | Inr (dl_rate, ul_rate, dht_count) \<Rightarrow>
          (let rdl = w_session_dl_history w;
               rul = w_session_ul_history w;
               st1 = write_il st rdl (int_lists st rdl @ [dl_rate]);
               st2 = write_il st1 rul (int_lists st1 rul @ [ul_rate]);
               st3 = (if length (int_lists st2 rdl) > w_max_session_history w
                      then write_il st2 rdl (tl (int_lists st2 rdl)) else st2);
               st4 = (if length (int_lists st3 rul) > w_max_session_history w
                      then write_il st3 rul (tl (int_lists st3 rul)) else st3)
           in ((dl_rate, ul_rate, dht_count), st4)))"

text \<open>
  The loop over \<open>self._torrents.values()\<close>: snapshot, record the speed,
  append the snapshot. \<open>snapshot\<close> catches every exception itself and
  \<open>record_speed\<close> raises none, so the \<open>except\<close> clause of the loop is never
  entered.
\<close>

fun snapshot_all ::
  "lt_flag_consts \<Rightarrow> (nat \<Rightarrow> handle_view) \<Rightarrow> store \<Rightarrow> (string \<times> Torrent) list
     \<Rightarrow> store \<times> (string \<times> Torrent) list \<times> ref list" where
  "snapshot_all k eng st [] = (st, [], [])"
| "snapshot_all k eng st ((key, t) # rest) =
     (let (st1, t1) = snapshot k eng st t;
          st2 = record_speed st1 t1;
          (st3, rest', snapshots) = snapshot_all k eng st2 rest
      in (st3, (key, t1) # rest', t_snap t1 # snapshots))"

definition emit_detail :: "env \<Rightarrow> SessionWorker \<Rightarrow> SessionWorker" where
  "emit_detail en w =
     (if w_focused_hash w \<noteq> [] then
        (case map_of (w_torrents w) (w_focused_hash w) of
           None \<Rightarrow> w
         | Some t \<Rightarrow>
             (let (st1, rdl) = alloc_il (w_store w)
                                 (int_lists (w_store w) (t_speed_history_dl t));
                  (st2, rul) = alloc_il st1 (int_lists st1 (t_speed_history_ul t));
                  detail = \<lparr> dd_info_hash = w_focused_hash w,
                             dd_engine = e_detail en (t_handle t),
                             dd_dl_history = rdl, dd_ul_history = rul \<rparr>
              in w\<lparr> w_store := st2, w_events := w_events w @ [DetailUpdated detail] \<rparr>))
      else w)"

definition update_stats :: "env \<Rightarrow> SessionWorker \<Rightarrow> SessionWorker" where
  "update_stats en w =
     (if \<not> w_session w then w
      else
        (let ((dl_rate, ul_rate, dht_count), st1) = record_session_rates en w (w_store w);
             (st2, ts, snapshots) = snapshot_all (e_flags en) (e_handle en) st1 (w_torrents w);
             (st3, rdl) = alloc_il st2 (int_lists st2 (w_session_dl_history w));
             (st4, rul) = alloc_il st3 (int_lists st3 (w_session_ul_history w));
             stats = \<lparr> ss_download_rate = dl_rate, ss_upload_rate = ul_rate,
                       ss_dht_nodes = dht_count, ss_dl_history = rdl, ss_ul_history = rul,
                       ss_torrent_count = length ts, ss_torrents = snapshots \<rparr>
         in emit_detail en
              (w\<lparr> w_store := st4, w_torrents := ts,
                  w_events := w_events w @ [StatsUpdated stats] \<rparr>)))"

subsection \<open>Commands\<close>

text \<open>
  The activity of the controller: the slots above, the statistics tick, and
  the tag and category edits of a torrent of the table.
\<close>

datatype command =
  Initialize
  | AddMagnet string string string string bool
  | RemoveTorrent string bool
  | UpdateStats
  | SetFocusedTorrent string
  | AddTag string string
  | RemoveTag string string
  | SetCategory string string

fun step :: "SessionWorker \<Rightarrow> env \<times> command \<Rightarrow> SessionWorker" where
  "step w (en, Initialize) = initialize en w"
| "step w (en, AddMagnet uri save_path category tags_json paused) =
     add_magnet en w uri save_path category tags_json paused"
| "step w (en, RemoveTorrent info_hash delete_files) =
     (case remove_torrent en w info_hash delete_files of Inl m \<Rightarrow> w | Inr w' \<Rightarrow> w')"
| "step w (en, UpdateStats) = update_stats en w"
| "step w (en, SetFocusedTorrent info_hash) = w\<lparr> w_focused_hash := info_hash \<rparr>"
| "step w (en, AddTag info_hash tag) =
     (case map_of (w_torrents w) info_hash of
        None \<Rightarrow> w
      | Some t \<Rightarrow> w\<lparr> w_store := add_tag (w_store w) t tag \<rparr>)"
| "step w (en, RemoveTag info_hash tag) =
     (case map_of (w_torrents w) info_hash of
        None \<Rightarrow> w
      | Some t \<Rightarrow> w\<lparr> w_store := remove_tag (w_store w) t tag \<rparr>)"
| "step w (en, SetCategory info_hash c) =
     (case map_of (w_torrents w) info_hash of
        None \<Rightarrow> w
      | Some t \<Rightarrow> w\<lparr> w_torrents := dict_set (w_torrents w) info_hash (set_category t c) \<rparr>)"

definition run :: "SessionWorker \<Rightarrow> (env \<times> command) list \<Rightarrow> SessionWorker" where
  "run w cs = foldl step w cs"

subsection \<open>Reading an emitted statistics object\<close>

text \<open>
  Everything an observer can read from a \<open>SessionStats\<close>: its fields, the
  contents of its two history lists, and each snapshot with the contents of
  its tag list.
\<close>

definition read_stats ::
  "store \<Rightarrow> SessionStats
     \<Rightarrow> SessionStats \<times> int list \<times> int list \<times> (TorrentSnapshot \<times> string list) list" where
  "read_stats st ss =
     (ss, int_lists st (ss_dl_history ss), int_lists st (ss_ul_history ss),
      map (\<lambda>r. (snaps st r, str_lists st (ts_tags (snaps st r)))) (ss_torrents ss))"

subsection \<open>Sample engine and database for concrete evaluation\<close>

text \<open>
  An engine with one torrent, whose handle is 1 and whose info-hash is
  \<open>aa\<close>; it accepts every magnet URI and every resume blob. In
  \<open>failing_env\<close> the status query of the handle raises. \<open>v0_disk\<close> is a
  resume database of version 0: no \<open>schema_version\<close> table, and a
  \<open>resume_data\<close> table with the seven original columns and one row.
\<close>

definition sample_status :: lt_status where
  "sample_status =
     \<lparr> errc_value = 0, errc_message = '''', st_state = downloading,
       st_paused = Some False, st_auto_managed = Some True, st_flags = Some 32,
       st_has_metadata = True, st_name = ''ubuntu.iso'', st_save_path = ''/tmp/x'',
       st_progress = 0, total_wanted = 1000, total_wanted_done = 0,
       all_time_download = 0, all_time_upload = 0, download_rate = 2048, upload_rate = 0,
       st_num_seeds = 3, st_num_peers = 4, st_num_connections = 4 \<rparr>"

definition sample_view :: handle_view where
  "sample_view =
     \<lparr> hv_is_valid = Inr True, hv_status = Inr sample_status, hv_info_hash = Inr ''aa'',
       hv_download_limit = Inr 0, hv_upload_limit = Inr 0 \<rparr>"

definition sample_env :: env where
  "sample_env =
     \<lparr> e_flags = \<lparr> tf_paused = Some 16, tf_auto_managed = Some 32 \<rparr>,
       e_flag_paused = 32, e_flag_auto_managed = 64, e_now = 1000,
       e_json_loads = (\<lambda>s. if s = ''[]'' then Inr [] else Inl ''JSONDecodeError''),
       e_new_session = Inr (),
       e_parse_magnet_uri =
         (\<lambda>u. Inr \<lparr> atp_source = u, atp_save_path = PNone, atp_flags = 0 \<rparr>),
       e_read_resume_data =
         (\<lambda>b. Inr \<lparr> atp_source = b, atp_save_path = PNone, atp_flags = 0 \<rparr>),
       e_add_torrent = (\<lambda>atp. Inr 1),
       e_remove_torrent = (\<lambda>h d. Inr ()),
       e_handle = (\<lambda>h. sample_view),
       e_detail = (\<lambda>h. \<lparr> ed_files = [], ed_peers = [], ed_trackers = [], ed_pieces = [],
                          ed_piece_length = 0 \<rparr>),
       e_session_status = Inr (2048, 0, 7),
       e_disk_db = \<lparr> db_schema_version = None, db_resume_data = None \<rparr>,
       e_db_fault = None \<rparr>"

definition failing_env :: env where
  "failing_env =
     sample_env\<lparr> e_handle := (\<lambda>h. sample_view\<lparr> hv_status := Inl ''status failed'' \<rparr>) \<rparr>"

definition v0_disk :: resume_db where
  "v0_disk =
     \<lparr> db_schema_version = None,
       db_resume_data =
         Some \<lparr> rt_extra_columns = [],
                rt_rows = [\<lparr> rr_info_hash = ''aa'', rr_resume_data = ''blob'',
                             rr_name = ''ubuntu.iso'', rr_category = ''Linux'',
                             rr_tags = ''[]'', rr_added_time = 5, rr_save_path = ''/tmp/x'',
                             rr_extra = [] \<rparr>] \<rparr> \<rparr>"

text \<open>
  An engine that checks what it is given: a magnet URI is accepted when it is
  \<open>magnet:?xt=urn:btih:\<close> followed by 40 hexadecimal digits, a torrent is
  added when its save path is a non-empty string, no resume blob is valid, and
  the handle reports the info-hash \<open>sample_hash\<close>. \<open>stale_disk\<close> is a
  resume database of the current version with one row, for \<open>sample_hash\<close>,
  whose blob the engine does not accept.
\<close>

definition sample_hash :: string where
  "sample_hash = ''0123456789abcdef0123456789abcdef01234567''"

definition sample_magnet :: string where
  "sample_magnet = ''magnet:?xt=urn:btih:0123456789abcdef0123456789abcdef01234567''"

definition is_hex :: "char \<Rightarrow> bool" where
  "is_hex c = (is_digit c \<or> c \<in> set ''abcdefABCDEF'')"

definition parse_magnet_sample :: "string \<Rightarrow> string + add_torrent_params" where
  "parse_magnet_sample u =
     (if startswith u ''magnet:?xt=urn:btih:'' \<and> length (drop 20 u) = 40
         \<and> list_all is_hex (drop 20 u)
      then Inr \<lparr> atp_source = u, atp_save_path = PNone, atp_flags = 0 \<rparr>
      else Inl ''invalid magnet URI'')"

definition engine_env :: env where
  "engine_env =
     sample_env
       \<lparr> e_parse_magnet_uri := parse_magnet_sample,
         e_read_resume_data := (\<lambda>b. Inl ''invalid resume data''),
         e_add_torrent :=
           (\<lambda>atp. case atp_save_path atp of
                     PStr path \<Rightarrow> if path \<noteq> [] then Inr 1 else Inl ''invalid save path''
                   | _ \<Rightarrow> Inl ''invalid save path''),
         e_handle := (\<lambda>h. sample_view\<lparr> hv_info_hash := Inr sample_hash \<rparr>) \<rparr>"


section \<open>Ownership of the objects in the store\<close>

text \<open>
  \<open>frame Mi Ms st st'\<close>: from \<open>st\<close> to \<open>st'\<close> objects are only added; every
  snapshot of \<open>st\<close> is unchanged, and so is every list of \<open>st\<close> other than
  the integer lists at \<open>Mi\<close> and the string lists at \<open>Ms\<close>.
\<close>

definition frame :: "ref set \<Rightarrow> ref set \<Rightarrow> store \<Rightarrow> store \<Rightarrow> bool" where
  "frame Mi Ms st st' =
     (next_il st \<le> next_il st' \<and> next_sl st \<le> next_sl st' \<and> next_sn st \<le> next_sn st'
      \<and> (\<forall>r < next_sn st. snaps st' r = snaps st r)
      \<and> (\<forall>r < next_il st. r \<notin> Mi \<longrightarrow> int_lists st' r = int_lists st r)
      \<and> (\<forall>r < next_sl st. r \<notin> Ms \<longrightarrow> str_lists st' r = str_lists st r))"

text \<open>
  The lists that the worker mutates in place: its two session histories and
  the two speed histories of every torrent of the table (\<open>owned_il\<close>), and
  the tag list of every torrent of the table (\<open>owned_sl\<close>).
\<close>

definition il_refs :: "(string \<times> Torrent) list \<Rightarrow> ref set" where
  "il_refs ts = (\<Union>kt \<in> set ts. {t_speed_history_dl (snd kt), t_speed_history_ul (snd kt)})"

definition sl_refs :: "(string \<times> Torrent) list \<Rightarrow> ref set" where
  "sl_refs ts = (\<lambda>kt. t_tags (snd kt)) ` set ts"

definition owned_il :: "SessionWorker \<Rightarrow> ref set" where
  "owned_il w = {w_session_dl_history w, w_session_ul_history w} \<union> il_refs (w_torrents w)"

definition owned_sl :: "SessionWorker \<Rightarrow> ref set" where
  "owned_sl w = (\<lambda>kt. t_tags (snd kt)) ` set (w_torrents w)"

text \<open>
  What one round of the snapshot loop does to an entry of the table: the
  torrent is the same but for its cached snapshot, which is a new object
  holding the value that \<open>snapshot\<close> computes from the engine's answer and
  the snapshot cached before, with a new tag list.
\<close>

definition snap_rel ::
  "lt_flag_consts \<Rightarrow> (nat \<Rightarrow> handle_view) \<Rightarrow> store \<Rightarrow> store
     \<Rightarrow> string \<times> Torrent \<Rightarrow> string \<times> Torrent \<Rightarrow> bool" where
  "snap_rel k eng st st' kt kt' =
     (fst kt' = fst kt \<and> snd kt' = (snd kt)\<lparr> t_snap := t_snap (snd kt') \<rparr>
      \<and> next_sn st \<le> t_snap (snd kt') \<and> t_snap (snd kt') < next_sn st'
      \<and> snaps st' (t_snap (snd kt')) =
            snapshot_value k (eng (t_handle (snd kt))) (snd kt) (snaps st (t_snap (snd kt)))
              (ts_tags (snaps st' (t_snap (snd kt'))))
      \<and> next_sl st \<le> ts_tags (snaps st' (t_snap (snd kt')))
      \<and> ts_tags (snaps st' (t_snap (snd kt'))) < next_sl st')"

text \<open>
  An emitted statistics object is separate from the worker when its two
  history lists and the tag lists of its snapshots are objects of the store
  that the worker does not own. The worker is well formed when the objects it
  owns and the snapshots it caches are in the store and every statistics
  object it has emitted is separate from it.
\<close>

definition stats_refs_ok :: "SessionWorker \<Rightarrow> SessionStats \<Rightarrow> bool" where
  "stats_refs_ok w ss =
     (ss_dl_history ss < next_il (w_store w) \<and> ss_dl_history ss \<notin> owned_il w
      \<and> ss_ul_history ss < next_il (w_store w) \<and> ss_ul_history ss \<notin> owned_il w
      \<and> (\<forall>r \<in> set (ss_torrents ss).
            r < next_sn (w_store w)
            \<and> ts_tags (snaps (w_store w) r) < next_sl (w_store w)
            \<and> ts_tags (snaps (w_store w) r) \<notin> owned_sl w))"

definition well_formed :: "SessionWorker \<Rightarrow> bool" where
  "well_formed w =
     ((\<forall>r \<in> owned_il w. r < next_il (w_store w))
      \<and> (\<forall>r \<in> owned_sl w. r < next_sl (w_store w))
      \<and> (\<forall>kt \<in> set (w_torrents w). t_snap (snd kt) < next_sn (w_store w))
      \<and> (\<forall>ss. StatsUpdated ss \<in> set (w_events w) \<longrightarrow> stats_refs_ok w ss))"

text \<open>
  \<open>ts_ext\<close>: the lists of the torrents of the new table are lists of the old
  table or new objects. \<open>extends w w'\<close>: what one operation may do to the
  worker, as far as the objects are concerned.
\<close>

definition ts_ext ::
  "store \<Rightarrow> store \<Rightarrow> (string \<times> Torrent) list \<Rightarrow> (string \<times> Torrent) list \<Rightarrow> bool" where
  "ts_ext st st' ts ts' =
     ((\<forall>r \<in> il_refs ts'. r \<in> il_refs ts \<or> (next_il st \<le> r \<and> r < next_il st'))
      \<and> (\<forall>r \<in> sl_refs ts'. r \<in> sl_refs ts \<or> (next_sl st \<le> r \<and> r < next_sl st'))
      \<and> (\<forall>kt \<in> set ts'. t_snap (snd kt) < next_sn st'))"

definition extends :: "SessionWorker \<Rightarrow> SessionWorker \<Rightarrow> bool" where
  "extends w w' =
     (frame (owned_il w) (owned_sl w) (w_store w) (w_store w')
      \<and> ts_ext (w_store w) (w_store w') (w_torrents w) (w_torrents w')
      \<and> w_session_dl_history w' = w_session_dl_history w
      \<and> w_session_ul_history w' = w_session_ul_history w
      \<and> set (w_events w) \<subseteq> set (w_events w')
      \<and> (\<forall>ss. StatsUpdated ss \<in> set (w_events w') \<longrightarrow>
             StatsUpdated ss \<in> set (w_events w) \<or> stats_refs_ok w' ss))"

section \<open>Sample runs of the worker\<close>

text \<open>
  \<open>emitted_stats\<close>: the statistics objects among the emitted signals, oldest
  first. \<open>first_tick\<close>: start-up, one magnet added, one statistics tick.
  \<open>later_activity\<close>: a tag added to the torrent, its category changed, and
  another tick. \<open>deaf_env\<close> is \<open>engine_env\<close> with a handle whose status query
  raises; \<open>deaf_tick\<close> is \<open>first_tick\<close> with the magnet added and the tick
  taken while the status query raises.
\<close>

fun emitted_stats :: "event list \<Rightarrow> SessionStats list" where
  "emitted_stats [] = []"
| "emitted_stats (StatsUpdated ss # es) = ss # emitted_stats es"
| "emitted_stats (e # es) = emitted_stats es"

definition first_tick :: "(env \<times> command) list" where
  "first_tick =
     [(engine_env, Initialize),
      (engine_env, AddMagnet sample_magnet ''/tmp/x'' '''' ''[]'' False),
      (engine_env, UpdateStats)]"

definition later_activity :: "(env \<times> command) list" where
  "later_activity =
     [(engine_env, AddTag sample_hash ''linux''),
      (engine_env, SetCategory sample_hash ''iso''),
      (engine_env, UpdateStats)]"

definition deaf_env :: env where
  "deaf_env =
     engine_env
       \<lparr> e_handle := (\<lambda>h. sample_view\<lparr> hv_info_hash := Inr sample_hash,
                                        hv_status := Inl ''status failed'' \<rparr>) \<rparr>"

definition deaf_tick :: "(env \<times> command) list" where
  "deaf_tick =
     [(engine_env, Initialize),
      (deaf_env, AddMagnet sample_magnet ''/tmp/x'' '''' ''[]'' False),
      (deaf_env, UpdateStats)]"

section \<open>Properties of the RSS monitor\<close>

lemma startswith_imp_contains: "startswith s p \<Longrightarrow> str_contains p s"
  by (cases s) (auto elim: startswith.elims)

text \<open>
  Claim C5, as the code has it. \<open>download_url\<close> is the magnet field if it is
  not empty; else the torrent_url field if it is not empty; else the link
  field if the link ends with \<open>.torrent\<close> or contains \<open>magnet:\<close> anywhere
  (the source tests \<open>'magnet:' in self.link\<close>, not a prefix); else the empty
  string. The extra test that the link is not empty changes nothing.
\<close>

theorem download_url_contains_magnet:
  "download_url fi =
     (if fi_magnet fi \<noteq> [] then fi_magnet fi
      else if fi_torrent_url fi \<noteq> [] then fi_torrent_url fi
      else if endswith (fi_link fi) ''.torrent'' \<or> str_contains ''magnet:'' (fi_link fi)
           then fi_link fi
      else [])"
  by (auto simp: download_url_def endswith_def)

text \<open>
  Claim C5 as stated fails: a link that holds \<open>magnet:\<close> in its middle neither
  ends with \<open>.torrent\<close> nor begins with \<open>magnet:\<close>, yet it is the download
  URL.
\<close>

theorem download_url_link_not_prefix:
  "fi_magnet \<lparr> fi_title = ''t'', fi_link = ''http://x/?u=magnet:abc'', fi_magnet = '''',
       fi_torrent_url = '''', fi_pub_date = '''', fi_size = 0, fi_guid = '''' \<rparr> = ''''
   \<and> fi_torrent_url \<lparr> fi_title = ''t'', fi_link = ''http://x/?u=magnet:abc'',
       fi_magnet = '''', fi_torrent_url = '''', fi_pub_date = '''', fi_size = 0,
       fi_guid = '''' \<rparr> = ''''
   \<and> \<not> endswith ''http://x/?u=magnet:abc'' ''.torrent''
   \<and> \<not> startswith ''http://x/?u=magnet:abc'' ''magnet:''
   \<and> download_url \<lparr> fi_title = ''t'', fi_link = ''http://x/?u=magnet:abc'',
         fi_magnet = '''', fi_torrent_url = '''', fi_pub_date = '''', fi_size = 0,
         fi_guid = '''' \<rparr>
       = ''http://x/?u=magnet:abc''"
  by (simp add: download_url_def endswith_def)

lemma load_config_single:
  "feeds (load_config m [d]) (fc_url (from_dict d)) =
     (if truthy (fc_url (from_dict d)) then Some (from_dict d)
      else feeds m (fc_url (from_dict d)))"
  by (auto simp: add_feed_def restart_timer_def stop_timer_def Let_def
           split: sum.splits option.splits)

text \<open>
  Claim C6, as the code has it. Configuration load does not clamp: the
  \<open>interval_minutes\<close> of a loaded FeedConfig is the value of the dictionary,
  unchanged, or the default 30 when the dictionary has no such key; and
  \<open>load_config\<close> stores that configuration under its URL when the URL is not
  empty.
\<close>

theorem from_dict_keeps_interval:
  "fc_interval_minutes (from_dict d) =
     (case d ''interval_minutes'' of None \<Rightarrow> PInt 30 | Some v \<Rightarrow> v)
   \<and> feeds (load_config m [d]) (fc_url (from_dict d)) =
       (if truthy (fc_url (from_dict d)) then Some (from_dict d)
        else feeds m (fc_url (from_dict d)))"
proof
  show "fc_interval_minutes (from_dict d) =
          (case d ''interval_minutes'' of None \<Rightarrow> PInt 30 | Some v \<Rightarrow> v)"
    by (simp add: from_dict_def field_or_def)
  show "feeds (load_config m [d]) (fc_url (from_dict d)) =
          (if truthy (fc_url (from_dict d)) then Some (from_dict d)
           else feeds m (fc_url (from_dict d)))"
    by (rule load_config_single)
qed

text \<open>
  Claim C6 as stated fails: a dictionary with \<open>interval_minutes = 1\<close> is loaded
  with the interval 1, below 5, and the monitor keeps it.
\<close>

theorem load_config_interval_below_five:
  "feeds (load_config empty_monitor
            [[''url'' \<mapsto> PStr ''http://f'', ''interval_minutes'' \<mapsto> PInt 1]])
         (PStr ''http://f'')
     = Some (from_dict [''url'' \<mapsto> PStr ''http://f'', ''interval_minutes'' \<mapsto> PInt 1])
   \<and> fc_interval_minutes
         (from_dict [''url'' \<mapsto> PStr ''http://f'', ''interval_minutes'' \<mapsto> PInt 1])
       = PInt 1
   \<and> (1::int) < 5"
  by (simp add: add_feed_def restart_timer_def stop_timer_def Let_def empty_monitor_def
        from_dict_def field_or_def)


section \<open>Properties of the torrent state resolution\<close>

lemma resolve_state_rows:
  "resolve_state k s =
     state_decision_tree (errc_value s) (fst (paused_flags k s)) (snd (paused_flags k s))
       (st_state s) (download_rate s) (st_num_seeds s)"
  by (simp add: resolve_state_def state_decision_tree_def Let_def)

lemma snapshot_value_state:
  assumes "hv_is_valid hv = Inr True" "hv_status hv = Inr s" "hv_info_hash hv = Inr h"
  shows "ts_state (snapshot_value k hv t old tags) = resolve_state k s"
  using assms by (simp add: snapshot_value_def captured_snapshot_def)

lemma snapshot_stored:
  "snaps (fst (snapshot k eng st t)) (t_snap (snd (snapshot k eng st t)))
     = snapshot_value k (eng (t_handle t)) t (snaps st (t_snap t)) (next_sl st)"
  by (simp add: snapshot_def alloc_sl_def alloc_sn_def)

text \<open>
  Claim C3. \<open>Torrent.snapshot\<close> on a valid handle whose status and info-hash
  queries return: the \<open>state\<close> field of the snapshot it stores is the value
  of the specification's decision tree, its rows tried in order (error,
  paused, queued, checking, metadata, stalled, downloading, completed,
  seeding, and downloading otherwise), on the error code, the engine state,
  the download rate and the seed count of the status bundle, and on its
  paused and auto-managed bits: the attributes \<open>paused\<close> and \<open>auto_managed\<close>
  of the bundle when it has them, and the two bits of its \<open>flags\<close> when it
  has no attribute \<open>paused\<close>.
\<close>

theorem snapshot_state_is_decision_tree:
  assumes "hv_is_valid (eng (t_handle t)) = Inr True"
      and "hv_status (eng (t_handle t)) = Inr s"
      and "hv_info_hash (eng (t_handle t)) = Inr h"
  shows "(st_paused s = Some p \<and> st_auto_managed s = Some a \<longrightarrow>
            ts_state (snaps (fst (snapshot k eng st t)) (t_snap (snd (snapshot k eng st t))))
              = state_decision_tree (errc_value s) p a (st_state s) (download_rate s)
                  (st_num_seeds s)
            \<and> resolve_state k s
              = state_decision_tree (errc_value s) p a (st_state s) (download_rate s)
                  (st_num_seeds s))
       \<and> (st_paused s = None \<and> st_flags s = Some f \<and> tf_paused k = Some mp
            \<and> tf_auto_managed k = Some ma \<longrightarrow>
            ts_state (snaps (fst (snapshot k eng st t)) (t_snap (snd (snapshot k eng st t))))
              = state_decision_tree (errc_value s) (f AND mp \<noteq> 0) (f AND ma \<noteq> 0)
                  (st_state s) (download_rate s) (st_num_seeds s))"
proof -
  have st: "ts_state (snaps (fst (snapshot k eng st t)) (t_snap (snd (snapshot k eng st t))))
      = resolve_state k s"
    unfolding snapshot_stored by (rule snapshot_value_state[OF assms])
  show ?thesis
    unfolding st resolve_state_rows
    by (simp add: paused_flags_def flags_fallback_def)
qed

text \<open>
  The theorem above on a new torrent whose engine reports a download at
  512 B/s with three seeds, not paused: the snapshot says stalled. With the
  bundle paused and not auto-managed the state is paused.
\<close>

theorem snapshot_state_is_decision_tree_witness:
  "ts_state
     (snaps
        (fst (snapshot (e_flags sample_env)
                (\<lambda>h. sample_view\<lparr> hv_status := Inr (sample_status\<lparr> download_rate := 512 \<rparr>) \<rparr>)
                (fst (new_Torrent (e_flags sample_env) (e_handle sample_env) 0 empty_store 1
                        '''' []))
                (snd (new_Torrent (e_flags sample_env) (e_handle sample_env) 0 empty_store 1
                        '''' []))))
        (t_snap
           (snd (snapshot (e_flags sample_env)
                   (\<lambda>h. sample_view\<lparr> hv_status := Inr (sample_status\<lparr> download_rate := 512 \<rparr>) \<rparr>)
                   (fst (new_Torrent (e_flags sample_env) (e_handle sample_env) 0 empty_store 1
                           '''' []))
                   (snd (new_Torrent (e_flags sample_env) (e_handle sample_env) 0 empty_store 1
                           '''' []))))))
     = STALLED
   \<and> resolve_state (e_flags sample_env)
        (sample_status\<lparr> st_paused := Some True, st_auto_managed := Some False \<rparr>) = PAUSED"
proof -
  let ?s = "sample_status\<lparr> download_rate := 512 \<rparr>"
  let ?eng = "\<lambda>h::nat. sample_view\<lparr> hv_status := Inr ?s \<rparr>"
  let ?st = "fst (new_Torrent (e_flags sample_env) (e_handle sample_env) 0 empty_store 1 '''' [])"
  let ?t = "snd (new_Torrent (e_flags sample_env) (e_handle sample_env) 0 empty_store 1 '''' [])"
  have h: "hv_is_valid (?eng (t_handle ?t)) = Inr True"
    "hv_status (?eng (t_handle ?t)) = Inr ?s"
    "hv_info_hash (?eng (t_handle ?t)) = Inr ''aa''"
    by (simp_all add: sample_view_def)
  have p: "st_paused ?s = Some False \<and> st_auto_managed ?s = Some True"
    by (simp add: sample_status_def)
  have v: "state_decision_tree (errc_value ?s) False True (st_state ?s) (download_rate ?s)
             (st_num_seeds ?s) = STALLED"
    by (simp add: state_decision_tree_def sample_status_def)
  let ?s2 = "sample_status\<lparr> st_paused := Some True, st_auto_managed := Some False \<rparr>"
  let ?eng2 = "\<lambda>h::nat. sample_view\<lparr> hv_status := Inr ?s2 \<rparr>"
  have h2: "hv_is_valid (?eng2 (t_handle ?t)) = Inr True"
    "hv_status (?eng2 (t_handle ?t)) = Inr ?s2"
    "hv_info_hash (?eng2 (t_handle ?t)) = Inr ''aa''"
    by (simp_all add: sample_view_def)
  have p2: "st_paused ?s2 = Some True \<and> st_auto_managed ?s2 = Some False" by simp
  have v2: "state_decision_tree (errc_value ?s2) True False (st_state ?s2) (download_rate ?s2)
             (st_num_seeds ?s2) = PAUSED"
    by (simp add: state_decision_tree_def sample_status_def)
  from snapshot_state_is_decision_tree[where eng="?eng" and t="?t" and s="?s" and p=False
      and a=True and k="e_flags sample_env" and st="?st", OF h] p v
  have c1: "ts_state (snaps (fst (snapshot (e_flags sample_env) ?eng ?st ?t))
        (t_snap (snd (snapshot (e_flags sample_env) ?eng ?st ?t)))) = STALLED"
    by simp
  from snapshot_state_is_decision_tree[where eng="?eng2" and t="?t" and s="?s2" and p=True
      and a=False and k="e_flags sample_env" and st="?st", OF h2] p2 v2
  have c2: "resolve_state (e_flags sample_env) ?s2 = PAUSED" by simp
  from c1 c2 show ?thesis by (rule conjI)
qed

section \<open>Properties of the peer filter\<close>





























section \<open>Session worker: adding, removing, start-up\<close>






text \<open>
  Claim C1 (amended). For every \<open>add_magnet\<close> whose URI is empty or, once
  the surrounding whitespace is stripped, does not begin with \<open>magnet:\<close>,
  the worker is left exactly as it was: no signal is emitted (the failure is
  only logged; the worker declares no add-failed signal), no torrent is added
  and the torrent table is unchanged.
\<close>

theorem add_magnet_invalid_uri_noop:
  assumes "uri = [] \<or> \<not> startswith (strip uri) ''magnet:''"
  shows "add_magnet en w uri save_path category tags_json paused = w
       \<and> step w (en, AddMagnet uri save_path category tags_json paused) = w"
  using assms by (simp add: add_magnet_def)

text \<open>
  The theorem above for the URI \<open>not-a-magnet\<close> on a started worker.
\<close>

theorem add_magnet_invalid_uri_noop_witness:
  "add_magnet engine_env (initialize engine_env (new_SessionWorker Map.empty))
       ''not-a-magnet'' ''/tmp/x'' '''' ''[]'' False
     = initialize engine_env (new_SessionWorker Map.empty)
   \<and> step (initialize engine_env (new_SessionWorker Map.empty))
       (engine_env, AddMagnet ''not-a-magnet'' ''/tmp/x'' '''' ''[]'' False)
     = initialize engine_env (new_SessionWorker Map.empty)"
proof -
  have h: "''not-a-magnet'' = [] \<or> \<not> startswith (strip ''not-a-magnet'') ''magnet:''"
    by code_simp
  show ?thesis
    by (rule add_magnet_invalid_uri_noop[where uri="''not-a-magnet''", OF h])
qed

text \<open>
  Against claim C1 as worded. On a started worker, \<open>add_magnet\<close> with the
  URI \<open>not-a-magnet\<close> emits nothing: the signals emitted so far are still
  just \<open>started\<close>. And a well-formed magnet URI that does not begin with
  \<open>magnet:\<close> because of a leading blank is accepted, with a save path
  given: the torrent is added and announced.
\<close>

theorem add_magnet_emits_no_failure_signal:
  "w_events (initialize engine_env (new_SessionWorker Map.empty)) = [Started]
   \<and> w_events (add_magnet engine_env (initialize engine_env (new_SessionWorker Map.empty))
                 ''not-a-magnet'' ''/tmp/x'' '''' ''[]'' False) = [Started]
   \<and> \<not> startswith (CHR '' '' # sample_magnet) ''magnet:''
   \<and> w_events (add_magnet engine_env (initialize engine_env (new_SessionWorker Map.empty))
                 (CHR '' '' # sample_magnet) ''/tmp/x'' '''' ''[]'' False)
       = [Started, TorrentAdded sample_hash]
   \<and> map fst (w_torrents (add_magnet engine_env
                 (initialize engine_env (new_SessionWorker Map.empty))
                 (CHR '' '' # sample_magnet) ''/tmp/x'' '''' ''[]'' False)) = [sample_hash]"
  by code_simp

text \<open>
  Claim C2. \<open>_init_resume_db\<close> on the version-0 database \<open>v0_disk\<close> (no
  \<open>schema_version\<close> table, a \<open>resume_data\<close> table without the limit columns,
  one row \<open>aa\<close>): it raises nothing and stores version 2, but the table
  still has neither \<open>dl_limit\<close> nor \<open>ul_limit\<close>, because the branch for
  version 0 does not run \<open>_migrate_schema\<close> and its
  \<open>CREATE TABLE IF NOT EXISTS\<close> leaves an existing table alone. The persisted
  row is loaded into the torrent table; the only signal of \<open>initialize\<close> is
  \<open>started\<close>.
\<close>

theorem init_resume_db_v0_keeps_old_columns:
  "(case init_resume_db v0_disk of (db, e) \<Rightarrow>
      e = None \<and> db_schema_version db = Some (Some 2)
      \<and> (case db_resume_data db of None \<Rightarrow> False
          | Some tbl \<Rightarrow> \<not> has_column tbl ''dl_limit'' \<and> \<not> has_column tbl ''ul_limit''
              \<and> map rr_info_hash (rt_rows tbl) = [''aa'']))
   \<and> map fst (w_torrents (initialize (sample_env\<lparr> e_disk_db := v0_disk \<rparr>)
                              (new_SessionWorker Map.empty))) = [''aa'']
   \<and> w_events (initialize (sample_env\<lparr> e_disk_db := v0_disk \<rparr>)
                              (new_SessionWorker Map.empty)) = [Started]"
  by code_simp




section \<open>Properties of the object store\<close>


lemma frame_refl: "frame Mi Ms st st"
  by (simp add: frame_def)

lemma frame_trans:
  assumes "frame Mi Ms st st1" "frame Mi' Ms' st1 st2"
    and "\<forall>r \<in> Mi'. r \<in> Mi \<or> next_il st \<le> r"
    and "\<forall>r \<in> Ms'. r \<in> Ms \<or> next_sl st \<le> r"
  shows "frame Mi Ms st st2"
  using assms unfolding frame_def
  by (auto simp: not_le)

lemma frame_mono: "frame Mi Ms st st' \<Longrightarrow> Mi \<subseteq> Mi' \<Longrightarrow> Ms \<subseteq> Ms' \<Longrightarrow> frame Mi' Ms' st st'"
  unfolding frame_def by auto

lemma snapshot_eq:
  "snapshot k eng st t =
     (st\<lparr> str_lists := (str_lists st)(next_sl st := str_lists st (t_tags t)),
          next_sl := Suc (next_sl st),
          snaps := (snaps st)(next_sn st :=
                     snapshot_value k (eng (t_handle t)) t (snaps st (t_snap t)) (next_sl st)),
          next_sn := Suc (next_sn st) \<rparr>,
      t\<lparr> t_snap := next_sn st \<rparr>)"
  by (simp add: snapshot_def alloc_sl_def alloc_sn_def)

lemma record_speed_proj [simp]:
  "snaps (record_speed st t) = snaps st"
  "str_lists (record_speed st t) = str_lists st"
  "next_il (record_speed st t) = next_il st"
  "next_sl (record_speed st t) = next_sl st"
  "next_sn (record_speed st t) = next_sn st"
  by (simp_all add: record_speed_def write_il_def Let_def)

lemma record_speed_other:
  "r \<noteq> t_speed_history_dl t \<Longrightarrow> r \<noteq> t_speed_history_ul t
     \<Longrightarrow> int_lists (record_speed st t) r = int_lists st r"
  by (simp add: record_speed_def write_il_def Let_def)

lemma snapshot_value_tags [simp]: "ts_tags (snapshot_value k hv t old tags) = tags"
  by (simp add: snapshot_value_def failure_snapshot_def captured_snapshot_def Let_def
      split: sum.splits bool.splits)

lemma snapshot_all_next:
  "snapshot_all k eng st ts = (st', ts', sn) \<Longrightarrow>
     next_il st' = next_il st \<and> next_sl st' = next_sl st + length ts
     \<and> next_sn st' = next_sn st + length ts
     \<and> sn = map (\<lambda>kt. t_snap (snd kt)) ts' \<and> map fst ts' = map fst ts"
proof (induction ts arbitrary: st st' ts' sn)
  case Nil
  then show ?case by simp
next
  case (Cons kt ts)
  obtain key t where kt: "kt = (key, t)" by (cases kt)
  let ?st1 = "fst (snapshot k eng st t)"
  let ?t1 = "snd (snapshot k eng st t)"
  let ?st2 = "record_speed ?st1 ?t1"
  obtain st3 rest sn3 where rec: "snapshot_all k eng ?st2 ts = (st3, rest, sn3)"
    by (cases "snapshot_all k eng ?st2 ts")
  from Cons.prems kt rec have res: "st' = st3" "ts' = (key, ?t1) # rest" "sn = t_snap ?t1 # sn3"
    by (simp_all add: split_def Let_def)
  from Cons.IH[OF rec] show ?case
    using res kt by (simp add: snapshot_eq)
qed

lemma snapshot_all_frame:
  "snapshot_all k eng st ts = (st', ts', sn) \<Longrightarrow> frame (il_refs ts) {} st st'"
proof (induction ts arbitrary: st st' ts' sn)
  case Nil
  then show ?case by (simp add: frame_refl)
next
  case (Cons kt ts)
  obtain key t where kt: "kt = (key, t)" by (cases kt)
  let ?st1 = "fst (snapshot k eng st t)"
  let ?t1 = "snd (snapshot k eng st t)"
  let ?st2 = "record_speed ?st1 ?t1"
  obtain st3 rest sn3 where rec: "snapshot_all k eng ?st2 ts = (st3, rest, sn3)"
    by (cases "snapshot_all k eng ?st2 ts")
  from Cons.prems kt rec have res: "st' = st3"
    by (simp_all add: split_def Let_def)
  have f1: "frame (il_refs (kt # ts)) {} st ?st2"
    unfolding frame_def kt il_refs_def
    by (auto simp: snapshot_eq record_speed_other)
  have f2: "frame (il_refs ts) {} ?st2 st3" by (rule Cons.IH[OF rec])
  show ?case unfolding res
    by (rule frame_trans[OF f1 f2]) (auto simp: il_refs_def)
qed

lemma snapshot_all_rel:
  "snapshot_all k eng st ts = (st', ts', sn) \<Longrightarrow> \<forall>kt \<in> set ts. t_snap (snd kt) < next_sn st
     \<Longrightarrow> list_all2 (snap_rel k eng st st') ts ts'"
proof (induction ts arbitrary: st st' ts' sn)
  case Nil
  then show ?case by simp
next
  case (Cons kt ts)
  obtain key t where kt: "kt = (key, t)" by (cases kt)
  let ?st1 = "fst (snapshot k eng st t)"
  let ?t1 = "snd (snapshot k eng st t)"
  let ?st2 = "record_speed ?st1 ?t1"
  obtain st3 rest sn3 where rec: "snapshot_all k eng ?st2 ts = (st3, rest, sn3)"
    by (cases "snapshot_all k eng ?st2 ts")
  from Cons.prems(1) kt rec have res: "st' = st3" "ts' = (key, ?t1) # rest"
    by (simp_all add: split_def Let_def)
  have nx2: "next_sn ?st2 = Suc (next_sn st)" "next_sl ?st2 = Suc (next_sl st)"
    by (simp_all add: snapshot_eq)
  have old: "\<forall>kt \<in> set ts. t_snap (snd kt) < next_sn ?st2"
    using Cons.prems(2) nx2 by auto
  have tail: "list_all2 (snap_rel k eng ?st2 st3) ts rest"
    by (rule Cons.IH[OF rec old])
  have fr: "frame (il_refs ts) {} ?st2 st3" by (rule snapshot_all_frame[OF rec])
  have nx3: "next_sn st3 = next_sn ?st2 + length ts" "next_sl st3 = next_sl ?st2 + length ts"
    using snapshot_all_next[OF rec] by simp_all
  have keep: "\<And>r. r < next_sn st \<Longrightarrow> snaps ?st2 r = snaps st r"
    by (simp add: snapshot_eq)
  have tail': "list_all2 (snap_rel k eng st st3) ts rest"
  proof (rule list.rel_mono_strong[OF tail])
    fix x y assume xs: "x \<in> set ts" and r: "snap_rel k eng ?st2 st3 x y"
    from xs Cons.prems(2) have "t_snap (snd x) < next_sn st" by auto
    with r keep show "snap_rel k eng st st3 x y"
      unfolding snap_rel_def nx2 by auto
  qed
  have hd_snap: "snaps st3 (next_sn st) =
      snapshot_value k (eng (t_handle t)) t (snaps st (t_snap t)) (next_sl st)"
    using fr unfolding frame_def nx2 by (simp add: snapshot_eq)
  have head: "snap_rel k eng st st3 (key, t) (key, ?t1)"
    unfolding snap_rel_def using hd_snap nx3 nx2 by (simp add: snapshot_eq)
  show ?case unfolding res kt using head tail' by simp
qed

lemma read_stats_frame:
  assumes "frame (owned_il w) (owned_sl w) (w_store w) st'" "stats_refs_ok w ss"
  shows "read_stats st' ss = read_stats (w_store w) ss"
  using assms unfolding frame_def stats_refs_ok_def read_stats_def
  by auto

lemma stats_refs_ok_update:
  assumes ok: "stats_refs_ok w ss"
    and fr: "frame (owned_il w) (owned_sl w) (w_store w) (w_store w')"
    and oi: "\<forall>r \<in> owned_il w'. r \<in> owned_il w \<or> next_il (w_store w) \<le> r"
    and os: "\<forall>r \<in> owned_sl w'. r \<in> owned_sl w \<or> next_sl (w_store w) \<le> r"
  shows "stats_refs_ok w' ss"
proof -
  from ok have a: "ss_dl_history ss < next_il (w_store w)" "ss_dl_history ss \<notin> owned_il w"
    "ss_ul_history ss < next_il (w_store w)" "ss_ul_history ss \<notin> owned_il w"
    and b: "\<And>r. r \<in> set (ss_torrents ss) \<Longrightarrow> r < next_sn (w_store w)
            \<and> ts_tags (snaps (w_store w) r) < next_sl (w_store w)
            \<and> ts_tags (snaps (w_store w) r) \<notin> owned_sl w"
    unfolding stats_refs_ok_def by auto
  from fr have n: "next_il (w_store w) \<le> next_il (w_store w')"
      "next_sl (w_store w) \<le> next_sl (w_store w')" "next_sn (w_store w) \<le> next_sn (w_store w')"
    and s: "\<And>r. r < next_sn (w_store w) \<Longrightarrow> snaps (w_store w') r = snaps (w_store w) r"
    unfolding frame_def by auto
  have c1: "ss_dl_history ss < next_il (w_store w') \<and> ss_dl_history ss \<notin> owned_il w'"
    using a n oi by (metis less_le_trans not_le)
  have c2: "ss_ul_history ss < next_il (w_store w') \<and> ss_ul_history ss \<notin> owned_il w'"
    using a n oi by (metis less_le_trans not_le)
  have c3: "\<And>r. r \<in> set (ss_torrents ss) \<Longrightarrow> r < next_sn (w_store w')
            \<and> ts_tags (snaps (w_store w') r) < next_sl (w_store w')
            \<and> ts_tags (snaps (w_store w') r) \<notin> owned_sl w'"
  proof -
    fix r assume "r \<in> set (ss_torrents ss)"
    from b[OF this] have r: "r < next_sn (w_store w)"
      "ts_tags (snaps (w_store w) r) < next_sl (w_store w)"
      "ts_tags (snaps (w_store w) r) \<notin> owned_sl w" by auto
    show "r < next_sn (w_store w')
            \<and> ts_tags (snaps (w_store w') r) < next_sl (w_store w')
            \<and> ts_tags (snaps (w_store w') r) \<notin> owned_sl w'"
      unfolding s[OF r(1)] using r n os by (metis less_le_trans not_le)
  qed
  show ?thesis unfolding stats_refs_ok_def using c1 c2 c3 by blast
qed

lemma wf_update:
  assumes well_formed: "well_formed w"
    and fr: "frame (owned_il w) (owned_sl w) (w_store w) (w_store w')"
    and oi: "\<forall>r \<in> owned_il w'. (r \<in> owned_il w \<or> next_il (w_store w) \<le> r)
                                  \<and> r < next_il (w_store w')"
    and os: "\<forall>r \<in> owned_sl w'. (r \<in> owned_sl w \<or> next_sl (w_store w) \<le> r)
                                  \<and> r < next_sl (w_store w')"
    and sn: "\<forall>kt \<in> set (w_torrents w'). t_snap (snd kt) < next_sn (w_store w')"
    and ev: "\<forall>ss. StatsUpdated ss \<in> set (w_events w') \<longrightarrow>
                   StatsUpdated ss \<in> set (w_events w) \<or> stats_refs_ok w' ss"
  shows "well_formed w'"
proof -
  have "stats_refs_ok w' ss" if "StatsUpdated ss \<in> set (w_events w')" for ss
  proof -
    from ev that have "StatsUpdated ss \<in> set (w_events w) \<or> stats_refs_ok w' ss" by blast
    then show ?thesis
    proof
      assume "StatsUpdated ss \<in> set (w_events w)"
      with well_formed have "stats_refs_ok w ss" unfolding well_formed_def by blast
      then show ?thesis
        by (rule stats_refs_ok_update[OF _ fr]) (use oi os in blast)+
    qed
  qed
  then show ?thesis unfolding well_formed_def using oi os sn by blast
qed

lemma dict_set_subset: "set (dict_set d k v) \<subseteq> insert (k, v) (set d)"
  by (induction d) (auto split: if_splits)

lemma dict_del_subset: "set (dict_del d k) \<subseteq> set d"
  by (auto simp: dict_del_def)

lemma new_Torrent_props:
  "new_Torrent k eng now st h cat tags = (st', t') \<Longrightarrow>
     frame {} {} st st' \<and> next_il st' = next_il st + 2 \<and> next_sl st' = next_sl st + 3
     \<and> next_sn st' = next_sn st + 2 \<and> t_tags t' = next_sl st
     \<and> t_speed_history_dl t' = next_il st \<and> t_speed_history_ul t' = Suc (next_il st)
     \<and> t_snap t' = Suc (next_sn st)"
  by (auto simp: new_Torrent_def alloc_sl_def alloc_il_def alloc_sn_def snapshot_eq frame_def)

lemma ts_ext_refl: "\<forall>kt \<in> set ts. t_snap (snd kt) < next_sn st \<Longrightarrow> ts_ext st st ts ts"
  by (simp add: ts_ext_def)

lemma ts_ext_trans:
  assumes "ts_ext st st1 ts ts1" "ts_ext st1 st2 ts1 ts2"
    "next_il st \<le> next_il st1" "next_il st1 \<le> next_il st2"
    "next_sl st \<le> next_sl st1" "next_sl st1 \<le> next_sl st2"
  shows "ts_ext st st2 ts ts2"
  using assms unfolding ts_ext_def
  by (smt (verit) le_trans less_le_trans)

lemma ts_ext_store:
  assumes "ts_ext st st ts ts" "next_sn st \<le> next_sn st'" "next_il st \<le> next_il st'"
    "next_sl st \<le> next_sl st'"
  shows "ts_ext st st' ts ts"
  using assms unfolding ts_ext_def by (meson less_le_trans)

lemma ts_ext_insert_fresh:
  assumes old: "\<forall>kt \<in> set ts. t_snap (snd kt) < next_sn st"
    and nt: "new_Torrent k eng now st h cat tags = (st', t')"
    and sub: "set ts' \<subseteq> insert (key, t'\<lparr> t_added_time := a \<rparr>) (set ts)"
  shows "ts_ext st st' ts ts'"
proof -
  from new_Torrent_props[OF nt] have p: "next_il st' = next_il st + 2"
    "next_sl st' = next_sl st + 3" "next_sn st' = next_sn st + 2" "t_tags t' = next_sl st"
    "t_speed_history_dl t' = next_il st" "t_speed_history_ul t' = Suc (next_il st)"
    "t_snap t' = Suc (next_sn st)" by auto
  have cases: "kt \<in> set ts \<or> snd kt = t'\<lparr> t_added_time := a \<rparr>" if "kt \<in> set ts'" for kt
    using sub that by auto
  have i: "r \<in> il_refs ts \<or> (next_il st \<le> r \<and> r < next_il st')" if "r \<in> il_refs ts'" for r
  proof -
    from that obtain kt where kt: "kt \<in> set ts'"
      "r = t_speed_history_dl (snd kt) \<or> r = t_speed_history_ul (snd kt)"
      unfolding il_refs_def by auto
    from cases[OF kt(1)] show ?thesis
    proof
      assume "kt \<in> set ts" then show ?thesis using kt(2) unfolding il_refs_def by auto
    next
      assume "snd kt = t'\<lparr> t_added_time := a \<rparr>" then show ?thesis using kt(2) p by auto
    qed
  qed
  have s: "r \<in> sl_refs ts \<or> (next_sl st \<le> r \<and> r < next_sl st')" if "r \<in> sl_refs ts'" for r
  proof -
    from that obtain kt where kt: "kt \<in> set ts'" "r = t_tags (snd kt)"
      unfolding sl_refs_def by auto
    from cases[OF kt(1)] show ?thesis
    proof
      assume "kt \<in> set ts" then show ?thesis using kt(2) unfolding sl_refs_def by auto
    next
      assume "snd kt = t'\<lparr> t_added_time := a \<rparr>" then show ?thesis using kt(2) p by auto
    qed
  qed
  have n: "t_snap (snd kt) < next_sn st'" if "kt \<in> set ts'" for kt
    using cases[OF that] old p by auto
  show ?thesis unfolding ts_ext_def using i s n by blast
qed

lemma frame_next:
  "frame Mi Ms st st' \<Longrightarrow> next_il st \<le> next_il st' \<and> next_sl st \<le> next_sl st'
     \<and> next_sn st \<le> next_sn st'"
  by (simp add: frame_def)

lemma load_row_cases:
  "load_row en st ts row = (st, ts)
   \<or> (\<exists>handle tags t a key.
         new_Torrent (e_flags en) (e_handle en) (e_now en) st handle (rr_category row) tags
           = (fst (load_row en st ts row), t)
         \<and> set (snd (load_row en st ts row))
               \<subseteq> insert (key, t\<lparr> t_added_time := a \<rparr>) (set ts))"
proof (cases "e_read_resume_data en (rr_resume_data row)")
  case (Inl m)
  then show ?thesis by (simp add: load_row_def)
next
  case atp: (Inr atp)
  show ?thesis
  proof (cases "e_add_torrent en atp")
    case (Inl m)
    then show ?thesis using atp by (simp add: load_row_def)
  next
    case h: (Inr handle)
    show ?thesis
    proof (cases "if rr_tags row \<noteq> [] then e_json_loads en (rr_tags row) else Inr []")
      case (Inl m)
      then show ?thesis using atp h by (simp add: load_row_def)
    next
      case tg: (Inr tags)
      obtain st1 t where nt: "new_Torrent (e_flags en) (e_handle en) (e_now en) st handle
          (rr_category row) tags = (st1, t)"
        by (cases "new_Torrent (e_flags en) (e_handle en) (e_now en) st handle
          (rr_category row) tags")
      let ?a = "if rr_added_time row \<noteq> 0 then rr_added_time row else e_now en"
      show ?thesis
      proof (cases "hv_info_hash (e_handle en handle)")
        case (Inl m)
        then have "load_row en st ts row = (st1, ts)"
          using atp h tg nt by (simp add: load_row_def)
        then show ?thesis using nt
          by (intro disjI2 exI[of _ handle] exI[of _ tags] exI[of _ t] exI[of _ ?a]
                exI[of _ "[]"]) auto
      next
        case (Inr ih)
        then have lr: "load_row en st ts row = (st1, dict_set ts ih (t\<lparr> t_added_time := ?a \<rparr>))"
          using atp h tg nt by (simp add: load_row_def)
        show ?thesis using nt lr dict_set_subset[of ts ih "t\<lparr> t_added_time := ?a \<rparr>"]
          by (intro disjI2 exI[of _ handle] exI[of _ tags] exI[of _ t] exI[of _ ?a]
                exI[of _ ih]) simp
      qed
    qed
  qed
qed

lemma load_row_ext:
  assumes "load_row en st ts row = (st', ts')" "\<forall>kt \<in> set ts. t_snap (snd kt) < next_sn st"
  shows "frame {} {} st st' \<and> ts_ext st st' ts ts'"
proof -
  from load_row_cases[of en st ts row] show ?thesis
  proof
    assume "load_row en st ts row = (st, ts)"
    with assms show ?thesis by (simp add: frame_refl ts_ext_refl)
  next
    assume "\<exists>handle tags t a key.
         new_Torrent (e_flags en) (e_handle en) (e_now en) st handle (rr_category row) tags
           = (fst (load_row en st ts row), t)
         \<and> set (snd (load_row en st ts row))
               \<subseteq> insert (key, t\<lparr> t_added_time := a \<rparr>) (set ts)"
    then obtain handle tags t a key where
      nt: "new_Torrent (e_flags en) (e_handle en) (e_now en) st handle (rr_category row) tags
           = (fst (load_row en st ts row), t)"
      and "set (snd (load_row en st ts row))
               \<subseteq> insert (key, t\<lparr> t_added_time := a \<rparr>) (set ts)"
      by blast
    then have nt: "new_Torrent (e_flags en) (e_handle en) (e_now en) st handle
           (rr_category row) tags = (st', t)"
      and "set ts' \<subseteq> insert (key, t\<lparr> t_added_time := a \<rparr>) (set ts)"
      using assms(1) by simp_all
    from ts_ext_insert_fresh[OF assms(2) nt this(2)] new_Torrent_props[OF nt]
    show ?thesis by simp
  qed
qed

lemma load_rows_ext:
  "load_rows en st ts rows = (st', ts') \<Longrightarrow> \<forall>kt \<in> set ts. t_snap (snd kt) < next_sn st
     \<Longrightarrow> frame {} {} st st' \<and> ts_ext st st' ts ts'"
proof (induction rows arbitrary: st ts)
  case Nil
  then show ?case by (simp add: frame_refl ts_ext_refl)
next
  case (Cons row rows)
  obtain st1 ts1 where r1: "load_row en st ts row = (st1, ts1)" by (cases "load_row en st ts row")
  from load_row_ext[OF r1 Cons.prems(2)] have e1: "frame {} {} st st1" "ts_ext st st1 ts ts1"
    by auto
  from e1(2) have b1: "\<forall>kt \<in> set ts1. t_snap (snd kt) < next_sn st1" by (simp add: ts_ext_def)
  from Cons.prems(1) r1 have "load_rows en st1 ts1 rows = (st', ts')" by simp
  from Cons.IH[OF this b1] have e2: "frame {} {} st1 st'" "ts_ext st1 st' ts1 ts'" by auto
  have "frame {} {} st st'" by (rule frame_trans[OF e1(1) e2(1)]) auto
  moreover have "ts_ext st st' ts ts'"
    using ts_ext_trans[OF e1(2) e2(2)] frame_next[OF e1(1)] frame_next[OF e2(1)] by blast
  ultimately show ?case by blast
qed

lemma owned_sl_refs: "owned_sl w = sl_refs (w_torrents w)"
  by (simp add: owned_sl_def sl_refs_def)

lemma extends_owned:
  assumes "extends w w'"
  shows "\<forall>r \<in> owned_il w'. r \<in> owned_il w \<or> (next_il (w_store w) \<le> r \<and> r < next_il (w_store w'))"
    and "\<forall>r \<in> owned_sl w'. r \<in> owned_sl w \<or> (next_sl (w_store w) \<le> r \<and> r < next_sl (w_store w'))"
  using assms unfolding extends_def ts_ext_def owned_il_def owned_sl_refs by auto

lemma extends_wf:
  assumes well_formed: "well_formed w" and ex: "extends w w'"
  shows "well_formed w'"
proof (rule wf_update[OF well_formed])
  from ex show fr: "frame (owned_il w) (owned_sl w) (w_store w) (w_store w')"
    by (simp add: extends_def)
  note nx = frame_next[OF fr]
  from well_formed have b: "\<And>r. r \<in> owned_il w \<Longrightarrow> r < next_il (w_store w)"
    "\<And>r. r \<in> owned_sl w \<Longrightarrow> r < next_sl (w_store w)" unfolding well_formed_def by auto
  show "\<forall>r\<in>owned_il w'. (r \<in> owned_il w \<or> next_il (w_store w) \<le> r) \<and> r < next_il (w_store w')"
    using extends_owned(1)[OF ex] b(1) nx by (meson less_le_trans)
  show "\<forall>r\<in>owned_sl w'. (r \<in> owned_sl w \<or> next_sl (w_store w) \<le> r) \<and> r < next_sl (w_store w')"
    using extends_owned(2)[OF ex] b(2) nx by (meson less_le_trans)
  from ex show "\<forall>kt\<in>set (w_torrents w'). t_snap (snd kt) < next_sn (w_store w')"
    by (simp add: extends_def ts_ext_def)
  from ex show "\<forall>ss. StatsUpdated ss \<in> set (w_events w') \<longrightarrow>
         StatsUpdated ss \<in> set (w_events w) \<or> stats_refs_ok w' ss"
    by (simp add: extends_def)
qed

lemma extends_read:
  assumes "well_formed w" "extends w w'" "StatsUpdated ss \<in> set (w_events w)"
  shows "read_stats (w_store w') ss = read_stats (w_store w) ss"
  using assms read_stats_frame[of w "w_store w'" ss] unfolding well_formed_def extends_def by blast

lemma extends_same_store:
  assumes "well_formed w" "w_store w' = w_store w" "set (w_torrents w') \<subseteq> set (w_torrents w)"
    "w_session_dl_history w' = w_session_dl_history w"
    "w_session_ul_history w' = w_session_ul_history w"
    "\<exists>es. w_events w' = w_events w @ es \<and> (\<forall>ss. StatsUpdated ss \<notin> set es)"
  shows "extends w w'"
proof -
  from assms(1) have sn: "\<forall>kt \<in> set (w_torrents w). t_snap (snd kt) < next_sn (w_store w)"
    unfolding well_formed_def by blast
  have te: "ts_ext (w_store w) (w_store w') (w_torrents w) (w_torrents w')"
    unfolding ts_ext_def il_refs_def sl_refs_def assms(2) using assms(3) sn by auto
  from assms(6) obtain es where es: "w_events w' = w_events w @ es"
    "\<forall>ss. StatsUpdated ss \<notin> set es" by blast
  show ?thesis unfolding extends_def
    using te es by (auto simp: assms(2) assms(4) assms(5) frame_refl)
qed

lemma extends_intro:
  assumes fr: "frame Mi Ms (w_store w) (w_store w')" and mi: "Mi \<subseteq> owned_il w"
    and ms: "Ms \<subseteq> owned_sl w"
    and te: "ts_ext (w_store w) (w_store w') (w_torrents w) (w_torrents w')"
    and dl: "w_session_dl_history w' = w_session_dl_history w"
    and ul: "w_session_ul_history w' = w_session_ul_history w"
    and ev: "w_events w' = w_events w @ es"
    and ok: "\<forall>ss. StatsUpdated ss \<in> set es \<longrightarrow> stats_refs_ok w' ss"
  shows "extends w w'"
  unfolding extends_def using frame_mono[OF fr mi ms] te dl ul ev ok by auto

lemma wf_snaps: "well_formed w \<Longrightarrow> \<forall>kt \<in> set (w_torrents w). t_snap (snd kt) < next_sn (w_store w)"
  by (simp add: well_formed_def)

lemma extends_refl: "well_formed w \<Longrightarrow> extends w w"
  by (rule extends_intro[where Mi="{}" and Ms="{}" and es="[]"])
     (simp_all add: frame_refl ts_ext_refl wf_snaps)

lemma extends_focus: "well_formed w \<Longrightarrow> extends w (w\<lparr> w_focused_hash := h \<rparr>)"
  by (rule extends_intro[where Mi="{}" and Ms="{}" and es="[]"])
     (simp_all add: frame_refl ts_ext_refl wf_snaps)

lemma frame_add_tag: "frame {} {t_tags t} st (add_tag st t tag)"
  by (simp add: frame_def add_tag_def write_sl_def)

lemma frame_remove_tag: "frame {} {t_tags t} st (remove_tag st t tag)"
  by (simp add: frame_def remove_tag_def write_sl_def)

lemma tag_next [simp]:
  "next_il (add_tag st t tag) = next_il st" "next_sl (add_tag st t tag) = next_sl st"
  "next_sn (add_tag st t tag) = next_sn st"
  "next_il (remove_tag st t tag) = next_il st" "next_sl (remove_tag st t tag) = next_sl st"
  "next_sn (remove_tag st t tag) = next_sn st"
  by (simp_all add: add_tag_def remove_tag_def write_sl_def)

lemma map_of_owned_sl: "map_of (w_torrents w) h = Some t \<Longrightarrow> t_tags t \<in> owned_sl w"
  unfolding owned_sl_def by (force dest: map_of_SomeD)

lemma extends_store_edit:
  assumes well_formed: "well_formed w" and fr: "frame {} {r} (w_store w) st'" and r: "r \<in> owned_sl w"
    and n: "next_il st' = next_il (w_store w)" "next_sl st' = next_sl (w_store w)"
      "next_sn st' = next_sn (w_store w)"
  shows "extends w (w\<lparr> w_store := st' \<rparr>)"
proof (rule extends_intro[where Mi="{}" and Ms="{r}" and es="[]"])
  show "ts_ext (w_store w) (w_store (w\<lparr> w_store := st' \<rparr>)) (w_torrents w)
          (w_torrents (w\<lparr> w_store := st' \<rparr>))"
    using ts_ext_store[OF ts_ext_refl[OF wf_snaps[OF well_formed]], of st'] n by simp
qed (use fr r in simp_all)

lemma extends_add_tag: "well_formed w \<Longrightarrow> extends w (step w (en, AddTag h tag))"
proof (cases "map_of (w_torrents w) h")
  case None
  assume "well_formed w" then show ?thesis using None by (simp add: extends_refl)
next
  case (Some t)
  assume well_formed: "well_formed w"
  show ?thesis using Some
    by (simp add: extends_store_edit[OF well_formed frame_add_tag map_of_owned_sl[OF Some]])
qed

lemma extends_remove_tag: "well_formed w \<Longrightarrow> extends w (step w (en, RemoveTag h tag))"
proof (cases "map_of (w_torrents w) h")
  case None
  assume "well_formed w" then show ?thesis using None by (simp add: extends_refl)
next
  case (Some t)
  assume well_formed: "well_formed w"
  show ?thesis using Some
    by (simp add: extends_store_edit[OF well_formed frame_remove_tag map_of_owned_sl[OF Some]])
qed

lemma ts_ext_same_store:
  assumes "\<forall>kt' \<in> set ts'. \<exists>kt \<in> set ts. t_tags (snd kt') = t_tags (snd kt)
             \<and> t_speed_history_dl (snd kt') = t_speed_history_dl (snd kt)
             \<and> t_speed_history_ul (snd kt') = t_speed_history_ul (snd kt)
             \<and> t_snap (snd kt') = t_snap (snd kt)"
    and "\<forall>kt \<in> set ts. t_snap (snd kt) < next_sn st"
  shows "ts_ext st st ts ts'"
  unfolding ts_ext_def il_refs_def sl_refs_def
proof (intro conjI ballI)
  fix r assume "r \<in> (\<Union>kt\<in>set ts'. {t_speed_history_dl (snd kt), t_speed_history_ul (snd kt)})"
  then obtain kt' where k: "kt' \<in> set ts'"
    "r = t_speed_history_dl (snd kt') \<or> r = t_speed_history_ul (snd kt')" by auto
  from assms(1) k(1) obtain kt where "kt \<in> set ts"
    "t_speed_history_dl (snd kt') = t_speed_history_dl (snd kt)"
    "t_speed_history_ul (snd kt') = t_speed_history_ul (snd kt)" by blast
  with k(2) show "r \<in> (\<Union>kt\<in>set ts. {t_speed_history_dl (snd kt), t_speed_history_ul (snd kt)})
       \<or> next_il st \<le> r \<and> r < next_il st" by auto
next
  fix r assume "r \<in> (\<lambda>kt. t_tags (snd kt)) ` set ts'"
  then obtain kt' where k: "kt' \<in> set ts'" "r = t_tags (snd kt')" by auto
  from assms(1) k(1) obtain kt where "kt \<in> set ts" "t_tags (snd kt') = t_tags (snd kt)"
    by blast
  with k(2) show "r \<in> (\<lambda>kt. t_tags (snd kt)) ` set ts \<or> next_sl st \<le> r \<and> r < next_sl st"
    by auto
next
  fix kt' assume "kt' \<in> set ts'"
  with assms(1) obtain kt where "kt \<in> set ts" "t_snap (snd kt') = t_snap (snd kt)" by blast
  with assms(2) show "t_snap (snd kt') < next_sn st" by auto
qed

lemma extends_set_category: "well_formed w \<Longrightarrow> extends w (step w (en, SetCategory h c))"
proof (cases "map_of (w_torrents w) h")
  case None
  assume "well_formed w" then show ?thesis using None by (simp add: extends_refl)
next
  case (Some t)
  assume well_formed: "well_formed w"
  let ?ts' = "dict_set (w_torrents w) h (set_category t c)"
  have mem: "(h, t) \<in> set (w_torrents w)" using Some by (rule map_of_SomeD)
  have sub: "set ?ts' \<subseteq> insert (h, set_category t c) (set (w_torrents w))"
    by (rule dict_set_subset)
  have te: "ts_ext (w_store w) (w_store w) (w_torrents w) ?ts'"
  proof (rule ts_ext_same_store[OF _ wf_snaps[OF well_formed]], rule ballI)
    fix kt' assume "kt' \<in> set ?ts'"
    with sub have "kt' = (h, set_category t c) \<or> kt' \<in> set (w_torrents w)" by auto
    then show "\<exists>kt \<in> set (w_torrents w). t_tags (snd kt') = t_tags (snd kt)
             \<and> t_speed_history_dl (snd kt') = t_speed_history_dl (snd kt)
             \<and> t_speed_history_ul (snd kt') = t_speed_history_ul (snd kt)
             \<and> t_snap (snd kt') = t_snap (snd kt)"
    proof
      assume "kt' = (h, set_category t c)"
      then show ?thesis using mem by (intro bexI[of _ "(h, t)"]) (simp_all add: set_category_def)
    next
      assume "kt' \<in> set (w_torrents w)"
      then show ?thesis by (intro bexI[of _ kt']) simp_all
    qed
  qed
  have "extends w (w\<lparr> w_torrents := ?ts' \<rparr>)"
    by (rule extends_intro[where Mi="{}" and Ms="{}" and es="[]"])
       (simp_all add: frame_refl te)
  then show ?thesis using Some by simp
qed

lemma remove_torrent_shape:
  assumes "remove_torrent en w h d = Inr w'"
  shows "w_store w' = w_store w \<and> set (w_torrents w') \<subseteq> set (w_torrents w)
       \<and> w_session_dl_history w' = w_session_dl_history w
       \<and> w_session_ul_history w' = w_session_ul_history w
       \<and> (w_events w' = w_events w @ [] \<or> w_events w' = w_events w @ [TorrentRemoved h])"
proof (cases "map_of (w_torrents w) h")
  case None
  with assms show ?thesis by (simp add: remove_torrent_def)
next
  case (Some t)
  show ?thesis
  proof (cases "w_session w")
    case False
    with assms Some show ?thesis by (simp add: remove_torrent_def)
  next
    case True
    define w1 where "w1 = w\<lparr> w_torrents := dict_del (w_torrents w) h \<rparr>"
    define w2 where "w2 = (case w_resume_db w1 of None \<Rightarrow> w1
             | Some db \<Rightarrow> (case delete_row (e_db_fault en) db h of Inl e \<Rightarrow> w1
                            | Inr db' \<Rightarrow> w1\<lparr> w_resume_db := Some db' \<rparr>))"
    from assms Some True have w': "w' = w2\<lparr> w_events := w_events w2 @ [TorrentRemoved h] \<rparr>"
      unfolding w2_def w1_def
      by (simp add: remove_torrent_def Let_def split: sum.splits)
    have p: "w_store w2 = w_store w" "w_torrents w2 = dict_del (w_torrents w) h"
      "w_session_dl_history w2 = w_session_dl_history w"
      "w_session_ul_history w2 = w_session_ul_history w" "w_events w2 = w_events w"
      by (simp_all add: w2_def w1_def split: option.splits sum.splits)
    show ?thesis unfolding w' using p dict_del_subset[of "w_torrents w" h] by simp
  qed
qed

lemma extends_remove: "well_formed w \<Longrightarrow> extends w (step w (en, RemoveTorrent h d))"
proof (cases "remove_torrent en w h d")
  case (Inl m)
  assume "well_formed w" then show ?thesis using Inl by (simp add: extends_refl)
next
  case (Inr w')
  assume well_formed: "well_formed w"
  note s = remove_torrent_shape[OF Inr]
  from s obtain es where es: "w_events w' = w_events w @ es" "\<forall>ss. StatsUpdated ss \<notin> set es"
    by auto
  have "extends w w'"
    by (rule extends_same_store[OF well_formed]) (use s es in auto)
  then show ?thesis using Inr by simp
qed

lemma add_magnet_cases:
  "add_magnet en w uri sp cat tj p = w
   \<or> (\<exists>handle tags st t ih.
         new_Torrent (e_flags en) (e_handle en) (e_now en) (w_store w) handle cat tags = (st, t)
         \<and> hv_info_hash (e_handle en handle) = Inr ih
         \<and> ih \<notin> set (map fst (w_torrents w))
         \<and> add_magnet en w uri sp cat tj p
             = w\<lparr> w_store := st, w_torrents := dict_set (w_torrents w) ih t,
                   w_events := w_events w @ [TorrentAdded ih] \<rparr>)"
proof (cases "\<not> w_session w \<or> uri = [] \<or> \<not> startswith (strip uri) ''magnet:''")
  case True
  then show ?thesis by (auto simp: add_magnet_def)
next
  case g: False
  show ?thesis
  proof (cases "if tj \<noteq> [] then e_json_loads en tj else Inr []")
    case (Inl m)
    then show ?thesis using g by (simp add: add_magnet_def)
  next
    case tg: (Inr tags)
    show ?thesis
    proof (cases "e_parse_magnet_uri en (strip uri)")
      case (Inl m)
      then show ?thesis using g tg by (simp add: add_magnet_def)
    next
      case atp: (Inr atp)
      show ?thesis
      proof (cases "\<exists>path. (if sp \<noteq> [] then PStr sp
                         else field_or (w_cfg w) ''default_save_path'' PNone) = PStr path")
        case False
        then show ?thesis using g tg atp
          by (cases "if sp \<noteq> [] then PStr sp
                         else field_or (w_cfg w) ''default_save_path'' PNone")
             (simp_all add: add_magnet_def)
      next
        case True
        then obtain path where path: "(if sp \<noteq> [] then PStr sp
                         else field_or (w_cfg w) ''default_save_path'' PNone) = PStr path"
          by blast
        define atp2 where "atp2 = atp\<lparr> atp_save_path := PStr path,
                                     atp_flags := magnet_flags en p (atp_flags atp) \<rparr>"
        show ?thesis
        proof (cases "e_add_torrent en atp2")
          case (Inl m)
          then show ?thesis using g tg atp path unfolding atp2_def
            by (simp add: add_magnet_def Let_def)
        next
          case h: (Inr handle)
          show ?thesis
          proof (cases "hv_info_hash (e_handle en handle)")
            case (Inl m)
            then show ?thesis using g tg atp path h unfolding atp2_def
              by (simp add: add_magnet_def Let_def)
          next
            case ih: (Inr ih)
            show ?thesis
            proof (cases "ih \<in> set (map fst (w_torrents w))")
              case True
              then show ?thesis using g tg atp path h ih unfolding atp2_def
                by (simp add: add_magnet_def Let_def)
            next
              case False
              obtain st t where nt: "new_Torrent (e_flags en) (e_handle en) (e_now en) (w_store w)
                  handle cat tags = (st, t)"
                by (cases "new_Torrent (e_flags en) (e_handle en) (e_now en) (w_store w)
                  handle cat tags")
              have "add_magnet en w uri sp cat tj p
                  = w\<lparr> w_store := st, w_torrents := dict_set (w_torrents w) ih t,
                        w_events := w_events w @ [TorrentAdded ih] \<rparr>"
                using g tg atp path h ih False nt unfolding atp2_def
                by (simp add: add_magnet_def Let_def)
              with nt ih False show ?thesis by blast
            qed
          qed
        qed
      qed
    qed
  qed
qed

lemma extends_fresh_torrent:
  assumes nt: "new_Torrent k eng now (w_store w) handle cat tags = (st, t)"
    and ts: "set ts' \<subseteq> insert (key, t\<lparr> t_added_time := a \<rparr>) (set (w_torrents w))"
    and well_formed: "well_formed w" and es: "\<forall>ss. StatsUpdated ss \<notin> set es"
  shows "extends w (w\<lparr> w_store := st, w_torrents := ts', w_events := w_events w @ es \<rparr>)"
proof (rule extends_intro[where Mi="{}" and Ms="{}" and es=es])
  show "frame {} {} (w_store w)
          (w_store (w\<lparr> w_store := st, w_torrents := ts', w_events := w_events w @ es \<rparr>))"
    using new_Torrent_props[OF nt] by simp
  show "ts_ext (w_store w)
          (w_store (w\<lparr> w_store := st, w_torrents := ts', w_events := w_events w @ es \<rparr>))
          (w_torrents w)
          (w_torrents (w\<lparr> w_store := st, w_torrents := ts', w_events := w_events w @ es \<rparr>))"
    using ts_ext_insert_fresh[OF wf_snaps[OF well_formed] nt ts] by simp
qed (use es in simp_all)

lemma extends_add_magnet:
  assumes well_formed: "well_formed w"
  shows "extends w (step w (en, AddMagnet uri sp cat tj p))"
proof -
  from add_magnet_cases[of en w uri sp cat tj p] show ?thesis
  proof
    assume "add_magnet en w uri sp cat tj p = w"
    then show ?thesis by (simp add: extends_refl[OF well_formed])
  next
    assume "\<exists>handle tags st t ih.
         new_Torrent (e_flags en) (e_handle en) (e_now en) (w_store w) handle cat tags = (st, t)
         \<and> hv_info_hash (e_handle en handle) = Inr ih
         \<and> ih \<notin> set (map fst (w_torrents w))
         \<and> add_magnet en w uri sp cat tj p
             = w\<lparr> w_store := st, w_torrents := dict_set (w_torrents w) ih t,
                   w_events := w_events w @ [TorrentAdded ih] \<rparr>"
    then obtain handle tags st t ih where
      nt: "new_Torrent (e_flags en) (e_handle en) (e_now en) (w_store w) handle cat tags = (st, t)"
      and am: "add_magnet en w uri sp cat tj p
             = w\<lparr> w_store := st, w_torrents := dict_set (w_torrents w) ih t,
                   w_events := w_events w @ [TorrentAdded ih] \<rparr>"
      by blast
    have sub: "set (dict_set (w_torrents w) ih t)
        \<subseteq> insert (ih, t\<lparr> t_added_time := t_added_time t \<rparr>) (set (w_torrents w))"
      using dict_set_subset[of "w_torrents w" ih t] by simp
    have "extends w (w\<lparr> w_store := st, w_torrents := dict_set (w_torrents w) ih t,
                   w_events := w_events w @ [TorrentAdded ih] \<rparr>)"
      by (rule extends_fresh_torrent[OF nt sub well_formed]) simp
    then show ?thesis by (simp add: am)
  qed
qed

lemma initialize_cases:
  "\<exists>b dbo rows es. (es = [] \<or> es = [Started])
     \<and> initialize en w
         = w\<lparr> w_session := b, w_resume_db := dbo,
               w_store := fst (load_rows en (w_store w) (w_torrents w) rows),
               w_torrents := snd (load_rows en (w_store w) (w_torrents w) rows),
               w_events := w_events w @ es \<rparr>"
proof (cases "e_new_session en")
  case (Inl m)
  then have "initialize en w = w" by (simp add: initialize_def)
  then show ?thesis
    by (intro exI[of _ "w_session w"] exI[of _ "w_resume_db w"] exI[of _ "[]"]) simp
next
  case s: (Inr u)
  obtain db eo where i: "init_resume_db (e_disk_db en) = (db, eo)"
    by (cases "init_resume_db (e_disk_db en)")
  show ?thesis
  proof (cases eo)
    case (Some e)
    then have "initialize en w = w\<lparr> w_session := True, w_resume_db := Some db \<rparr>"
      using s i by (simp add: initialize_def Let_def)
    then show ?thesis
      by (intro exI[of _ True] exI[of _ "Some db"] exI[of _ "[]"]) simp
  next
    case None
    show ?thesis
    proof (cases "select_rows db")
      case (Inl e)
      then have "initialize en w = w\<lparr> w_session := True, w_resume_db := Some db \<rparr>"
        using s i None by (simp add: initialize_def Let_def)
      then show ?thesis
        by (intro exI[of _ True] exI[of _ "Some db"] exI[of _ "[]"]) simp
    next
      case (Inr rows)
      then have "initialize en w
         = w\<lparr> w_session := True, w_resume_db := Some db,
               w_store := fst (load_rows en (w_store w) (w_torrents w) rows),
               w_torrents := snd (load_rows en (w_store w) (w_torrents w) rows),
               w_events := w_events w @ [Started] \<rparr>"
        using s i None by (simp add: initialize_def Let_def split_def)
      then show ?thesis
        by (intro exI[of _ True] exI[of _ "Some db"] exI[of _ rows] exI[of _ "[Started]"]) simp
    qed
  qed
qed

lemma extends_initialize:
  assumes well_formed: "well_formed w"
  shows "extends w (step w (en, Initialize))"
proof -
  from initialize_cases[of en w] obtain b dbo rows es where
    es: "es = [] \<or> es = [Started]"
    and i: "initialize en w
         = w\<lparr> w_session := b, w_resume_db := dbo,
               w_store := fst (load_rows en (w_store w) (w_torrents w) rows),
               w_torrents := snd (load_rows en (w_store w) (w_torrents w) rows),
               w_events := w_events w @ es \<rparr>"
    by blast
  obtain st ts where lr: "load_rows en (w_store w) (w_torrents w) rows = (st, ts)"
    by (cases "load_rows en (w_store w) (w_torrents w) rows")
  note e = load_rows_ext[OF lr wf_snaps[OF well_formed]]
  have "extends w (initialize en w)"
    unfolding i lr
    by (rule extends_intro[where Mi="{}" and Ms="{}" and es=es]) (use e es in auto)
  then show ?thesis by simp
qed

lemma extends_trans:
  assumes e1: "extends w w1" and e2: "extends w1 w2"
  shows "extends w w2"
proof -
  from e1 have f1: "frame (owned_il w) (owned_sl w) (w_store w) (w_store w1)"
    and t1: "ts_ext (w_store w) (w_store w1) (w_torrents w) (w_torrents w1)"
    and v1: "set (w_events w) \<subseteq> set (w_events w1)"
    and o1: "\<forall>ss. StatsUpdated ss \<in> set (w_events w1) \<longrightarrow>
             StatsUpdated ss \<in> set (w_events w) \<or> stats_refs_ok w1 ss"
    and h1: "w_session_dl_history w1 = w_session_dl_history w"
      "w_session_ul_history w1 = w_session_ul_history w"
    by (simp_all add: extends_def)
  from e2 have f2: "frame (owned_il w1) (owned_sl w1) (w_store w1) (w_store w2)"
    and t2: "ts_ext (w_store w1) (w_store w2) (w_torrents w1) (w_torrents w2)"
    and v2: "set (w_events w1) \<subseteq> set (w_events w2)"
    and o2: "\<forall>ss. StatsUpdated ss \<in> set (w_events w2) \<longrightarrow>
             StatsUpdated ss \<in> set (w_events w1) \<or> stats_refs_ok w2 ss"
    and h2: "w_session_dl_history w2 = w_session_dl_history w1"
      "w_session_ul_history w2 = w_session_ul_history w1"
    by (simp_all add: extends_def)
  note ow1 = extends_owned[OF e1] and ow2 = extends_owned[OF e2]
  have f: "frame (owned_il w) (owned_sl w) (w_store w) (w_store w2)"
    by (rule frame_trans[OF f1 f2]) (use ow1 in blast)+
  have t: "ts_ext (w_store w) (w_store w2) (w_torrents w) (w_torrents w2)"
    using ts_ext_trans[OF t1 t2] frame_next[OF f1] frame_next[OF f2] by blast
  have o: "StatsUpdated ss \<in> set (w_events w) \<or> stats_refs_ok w2 ss"
    if "StatsUpdated ss \<in> set (w_events w2)" for ss
  proof -
    from o2 that have "StatsUpdated ss \<in> set (w_events w1) \<or> stats_refs_ok w2 ss" by blast
    then show ?thesis
    proof
      assume "StatsUpdated ss \<in> set (w_events w1)"
      with o1 have "StatsUpdated ss \<in> set (w_events w) \<or> stats_refs_ok w1 ss" by blast
      then show ?thesis
      proof
        assume "stats_refs_ok w1 ss"
        then have "stats_refs_ok w2 ss"
          by (rule stats_refs_ok_update[OF _ f2]) (use ow2 in blast)+
        then show ?thesis ..
      qed simp
    qed simp
  qed
  show ?thesis unfolding extends_def using f t h1 h2 v1 v2 o by auto
qed

lemma list_all2_set2_ex:
  "list_all2 P xs ys \<Longrightarrow> y \<in> set ys \<Longrightarrow> \<exists>x \<in> set xs. P x y"
  by (induction rule: list_all2_induct) auto

lemma rsr_props:
  assumes "record_session_rates en w st = (rates, st1)"
  shows "snaps st1 = snaps st \<and> str_lists st1 = str_lists st \<and> next_il st1 = next_il st
       \<and> next_sl st1 = next_sl st \<and> next_sn st1 = next_sn st
       \<and> (\<forall>r. r \<noteq> w_session_dl_history w \<longrightarrow> r \<noteq> w_session_ul_history w
              \<longrightarrow> int_lists st1 r = int_lists st r)"
proof (cases "e_session_status en")
  case (Inl m)
  with assms show ?thesis by (simp add: record_session_rates_def)
next
  case (Inr x)
  obtain a b c where x: "x = (a, b, c)" by (cases x)
  from assms Inr x show ?thesis
    by (auto simp: record_session_rates_def write_il_def Let_def)
qed

lemma rsr_frame:
  assumes "record_session_rates en w st = (rates, st1)"
  shows "frame {w_session_dl_history w, w_session_ul_history w} {} st st1"
  using rsr_props[OF assms] unfolding frame_def by auto

lemma emit_detail_props:
  "\<exists>st' es. emit_detail en w = w\<lparr> w_store := st', w_events := w_events w @ es \<rparr>
     \<and> (\<forall>ss. StatsUpdated ss \<notin> set es) \<and> frame {} {} (w_store w) st'"
proof (cases "w_focused_hash w \<noteq> [] \<and> map_of (w_torrents w) (w_focused_hash w) \<noteq> None")
  case False
  then have "emit_detail en w = w" by (auto simp: emit_detail_def)
  then show ?thesis
    by (intro exI[of _ "w_store w"] exI[of _ "[]"]) (simp add: frame_refl)
next
  case True
  then obtain t where t: "map_of (w_torrents w) (w_focused_hash w) = Some t" by auto
  define st1 where "st1 = fst (alloc_il (w_store w)
                                 (int_lists (w_store w) (t_speed_history_dl t)))"
  define st2 where "st2 = fst (alloc_il st1 (int_lists st1 (t_speed_history_ul t)))"
  define d where "d = \<lparr> dd_info_hash = w_focused_hash w, dd_engine = e_detail en (t_handle t),
                        dd_dl_history = snd (alloc_il (w_store w)
                                 (int_lists (w_store w) (t_speed_history_dl t))),
                        dd_ul_history = snd (alloc_il st1 (int_lists st1 (t_speed_history_ul t))) \<rparr>"
  have "emit_detail en w = w\<lparr> w_store := st2, w_events := w_events w @ [DetailUpdated d] \<rparr>"
    using True t unfolding d_def st2_def st1_def
    by (simp add: emit_detail_def split_def Let_def)
  moreover have "frame {} {} (w_store w) st2"
    unfolding st2_def st1_def by (simp add: frame_def alloc_il_def)
  ultimately show ?thesis
    by (intro exI[of _ st2] exI[of _ "[DetailUpdated d]"]) simp
qed

lemma extends_emit_detail:
  assumes well_formed: "well_formed w"
  shows "extends w (emit_detail en w)"
proof -
  from emit_detail_props[of en w] obtain st' es where
    e: "emit_detail en w = w\<lparr> w_store := st', w_events := w_events w @ es \<rparr>"
    and es: "\<forall>ss. StatsUpdated ss \<notin> set es" and fr: "frame {} {} (w_store w) st'"
    by blast
  have te: "ts_ext (w_store w) st' (w_torrents w) (w_torrents w)"
    using ts_ext_store[OF ts_ext_refl[OF wf_snaps[OF well_formed]], of st'] frame_next[OF fr] by blast
  show ?thesis unfolding e
    by (rule extends_intro[where Mi="{}" and Ms="{}" and es=es]) (use fr te es in simp_all)
qed

lemma snap_rel_refs:
  assumes "list_all2 (snap_rel k eng st st') ts ts'" and "kt' \<in> set ts'"
  shows "\<exists>kt \<in> set ts. t_tags (snd kt') = t_tags (snd kt)
             \<and> t_speed_history_dl (snd kt') = t_speed_history_dl (snd kt)
             \<and> t_speed_history_ul (snd kt') = t_speed_history_ul (snd kt)"
proof -
  from list_all2_set2_ex[OF assms] obtain kt where kt: "kt \<in> set ts"
    and r: "snap_rel k eng st st' kt kt'" by blast
  from r have "snd kt' = (snd kt)\<lparr> t_snap := t_snap (snd kt') \<rparr>" by (simp add: snap_rel_def)
  then have "t_tags (snd kt') = t_tags (snd kt)
             \<and> t_speed_history_dl (snd kt') = t_speed_history_dl (snd kt)
             \<and> t_speed_history_ul (snd kt') = t_speed_history_ul (snd kt)"
    by (metis Torrent.select_convs(3,5,6) Torrent.surjective Torrent.update_convs(8))
  with kt show ?thesis by blast
qed

lemma snap_rel_bounds:
  assumes "list_all2 (snap_rel k eng st st') ts ts'" and "kt' \<in> set ts'"
  shows "next_sn st \<le> t_snap (snd kt') \<and> t_snap (snd kt') < next_sn st'
       \<and> next_sl st \<le> ts_tags (snaps st' (t_snap (snd kt')))
       \<and> ts_tags (snaps st' (t_snap (snd kt'))) < next_sl st'"
proof -
  from list_all2_set2_ex[OF assms] obtain kt where "snap_rel k eng st st' kt kt'" by blast
  then show ?thesis by (simp add: snap_rel_def)
qed

lemma extends_stats_mid:
  assumes well_formed: "well_formed w"
    and rsr: "record_session_rates en w (w_store w) = (rates, st1)"
    and sa: "snapshot_all k eng st1 (w_torrents w) = (st2, ts', sn)"
    and f24: "frame {} {} st2 st4"
    and n4: "next_il st4 = next_il st2 + 2" "next_sl st4 = next_sl st2"
      "next_sn st4 = next_sn st2" "snaps st4 = snaps st2"
    and ss: "ss_dl_history ss = next_il st2" "ss_ul_history ss = Suc (next_il st2)"
      "ss_torrents ss = sn"
  shows "extends w (w\<lparr> w_store := st4, w_torrents := ts',
                       w_events := w_events w @ [StatsUpdated ss] \<rparr>)"
proof -
  let ?st = "w_store w" and ?ts = "w_torrents w"
  let ?w' = "w\<lparr> w_store := st4, w_torrents := ts', w_events := w_events w @ [StatsUpdated ss] \<rparr>"
  note p1 = rsr_props[OF rsr]
  from p1 have n1: "next_il st1 = next_il ?st" "next_sl st1 = next_sl ?st"
    "next_sn st1 = next_sn ?st" by simp_all
  from snapshot_all_next[OF sa] have n2: "next_il st2 = next_il st1"
    "next_sl st2 = next_sl st1 + length ?ts" "next_sn st2 = next_sn st1 + length ?ts"
    "sn = map (\<lambda>kt. t_snap (snd kt)) ts'" by simp_all
  have old: "\<forall>kt \<in> set ?ts. t_snap (snd kt) < next_sn st1"
    using wf_snaps[OF well_formed] n1 by simp
  note rel = snapshot_all_rel[OF sa old]
  from well_formed have bi: "\<And>r. r \<in> owned_il w \<Longrightarrow> r < next_il ?st"
    and bs: "\<And>r. r \<in> owned_sl w \<Longrightarrow> r < next_sl ?st"
    unfolding well_formed_def by auto
  have f01: "frame (owned_il w) (owned_sl w) ?st st1"
    by (rule frame_mono[OF rsr_frame[OF rsr]]) (simp_all add: owned_il_def)
  have f02: "frame (owned_il w) (owned_sl w) ?st st2"
    by (rule frame_trans[OF f01 snapshot_all_frame[OF sa]]) (simp_all add: owned_il_def)
  have fr: "frame (owned_il w) (owned_sl w) ?st st4"
    by (rule frame_trans[OF f02 f24]) simp_all
  have il: "il_refs ts' \<subseteq> il_refs ?ts"
  proof
    fix r assume "r \<in> il_refs ts'"
    then obtain kt' where k: "kt' \<in> set ts'"
      "r = t_speed_history_dl (snd kt') \<or> r = t_speed_history_ul (snd kt')"
      unfolding il_refs_def by auto
    from snap_rel_refs[OF rel k(1)] k(2) show "r \<in> il_refs ?ts"
      unfolding il_refs_def by auto
  qed
  have sl: "sl_refs ts' \<subseteq> sl_refs ?ts"
  proof
    fix r assume "r \<in> sl_refs ts'"
    then obtain kt' where k: "kt' \<in> set ts'" "r = t_tags (snd kt')"
      unfolding sl_refs_def by auto
    from snap_rel_refs[OF rel k(1)] k(2) show "r \<in> sl_refs ?ts"
      unfolding sl_refs_def by auto
  qed
  have sb: "\<forall>kt' \<in> set ts'. t_snap (snd kt') < next_sn st4"
    using snap_rel_bounds[OF rel] n4 by simp
  have te: "ts_ext ?st st4 ?ts ts'"
    unfolding ts_ext_def using il sl sb by blast
  have oi': "owned_il ?w' \<subseteq> owned_il w" using il by (auto simp: owned_il_def)
  have os': "owned_sl ?w' \<subseteq> owned_sl w" using sl by (simp add: owned_sl_refs)
  have nil: "next_il st2 = next_il ?st" using n1 n2 by simp
  have h1: "ss_dl_history ss < next_il st4 \<and> ss_dl_history ss \<notin> owned_il ?w'"
  proof
    show "ss_dl_history ss < next_il st4" using ss(1) n4(1) by simp
    show "ss_dl_history ss \<notin> owned_il ?w'"
    proof
      assume "ss_dl_history ss \<in> owned_il ?w'"
      with oi' have "ss_dl_history ss < next_il ?st" using bi by blast
      with ss(1) nil show False by simp
    qed
  qed
  have h2: "ss_ul_history ss < next_il st4 \<and> ss_ul_history ss \<notin> owned_il ?w'"
  proof
    show "ss_ul_history ss < next_il st4" using ss(2) n4(1) by simp
    show "ss_ul_history ss \<notin> owned_il ?w'"
    proof
      assume "ss_ul_history ss \<in> owned_il ?w'"
      with oi' have "ss_ul_history ss < next_il ?st" using bi by blast
      with ss(2) nil show False by simp
    qed
  qed
  have h3: "r < next_sn st4 \<and> ts_tags (snaps st4 r) < next_sl st4
            \<and> ts_tags (snaps st4 r) \<notin> owned_sl ?w'" if "r \<in> set (ss_torrents ss)" for r
  proof -
    from that ss(3) n2(4) obtain kt' where k: "kt' \<in> set ts'" "r = t_snap (snd kt')" by auto
    note b = snap_rel_bounds[OF rel k(1)]
    have a: "r < next_sn st4" using b k(2) n4(3) by simp
    have c: "ts_tags (snaps st4 r) < next_sl st4" using b k(2) n4(2,4) by simp
    have d: "ts_tags (snaps st4 r) \<notin> owned_sl ?w'"
    proof
      assume "ts_tags (snaps st4 r) \<in> owned_sl ?w'"
      with os' have "ts_tags (snaps st4 r) < next_sl ?st" using bs by blast
      moreover have "next_sl st1 \<le> ts_tags (snaps st4 r)" using b k(2) n4(4) by simp
      ultimately show False using n1(2) by simp
    qed
    from a c d show ?thesis by blast
  qed
  have ok: "stats_refs_ok ?w' ss"
    unfolding stats_refs_ok_def using h1 h2 h3 by simp
  show ?thesis
    by (rule extends_intro[where Mi="owned_il w" and Ms="owned_sl w"
          and es="[StatsUpdated ss]"])
       (use fr te ok in simp_all)
qed

lemma extends_update_stats:
  assumes well_formed: "well_formed w"
  shows "extends w (update_stats en w)"
proof (cases "w_session w")
  case False
  then show ?thesis by (simp add: update_stats_def extends_refl[OF well_formed])
next
  case True
  obtain dl ul dht st1 where rsr:
    "record_session_rates en w (w_store w) = ((dl, ul, dht), st1)"
    by (cases "record_session_rates en w (w_store w)") auto
  obtain st2 ts' sn where sa:
    "snapshot_all (e_flags en) (e_handle en) st1 (w_torrents w) = (st2, ts', sn)"
    by (cases "snapshot_all (e_flags en) (e_handle en) st1 (w_torrents w)") auto
  define st3 where "st3 = fst (alloc_il st2 (int_lists st2 (w_session_dl_history w)))"
  define st4 where "st4 = fst (alloc_il st3 (int_lists st3 (w_session_ul_history w)))"
  define ss where "ss = \<lparr> ss_download_rate = dl, ss_upload_rate = ul, ss_dht_nodes = dht,
                          ss_dl_history = next_il st2, ss_ul_history = Suc (next_il st2),
                          ss_torrent_count = length ts', ss_torrents = sn \<rparr>"
  define mid where "mid = w\<lparr> w_store := st4, w_torrents := ts',
                                w_events := w_events w @ [StatsUpdated ss] \<rparr>"
  have us: "update_stats en w = emit_detail en mid"
    using True rsr sa unfolding mid_def ss_def st4_def st3_def
    by (simp add: update_stats_def alloc_il_def)
  have f24: "frame {} {} st2 st4"
    unfolding st4_def st3_def by (simp add: frame_def alloc_il_def)
  have n4: "next_il st4 = next_il st2 + 2" "next_sl st4 = next_sl st2"
    "next_sn st4 = next_sn st2" "snaps st4 = snaps st2"
    unfolding st4_def st3_def by (simp_all add: alloc_il_def)
  have e1: "extends w mid"
    unfolding mid_def
    by (rule extends_stats_mid[OF well_formed rsr sa f24 n4]) (simp_all add: ss_def)
  have e2: "extends mid (emit_detail en mid)"
    by (rule extends_emit_detail[OF extends_wf[OF well_formed e1]])
  show ?thesis unfolding us by (rule extends_trans[OF e1 e2])
qed

lemma extends_step:
  assumes well_formed: "well_formed w"
  shows "extends w (step w c)"
proof -
  obtain en cmd where c: "c = (en, cmd)" by (cases c)
  show ?thesis
  proof (cases cmd)
    case Initialize
    then show ?thesis using extends_initialize[OF well_formed, of en] c by simp
  next
    case (AddMagnet uri sp cat tj p)
    then show ?thesis using extends_add_magnet[OF well_formed, of en uri sp cat tj p] c by simp
  next
    case (RemoveTorrent h d)
    then show ?thesis using extends_remove[OF well_formed, of en h d] c by simp
  next
    case UpdateStats
    then show ?thesis using extends_update_stats[OF well_formed, of en] c by simp
  next
    case (SetFocusedTorrent h)
    then show ?thesis using extends_focus[OF well_formed, of h] c by simp
  next
    case (AddTag h tag)
    then show ?thesis using extends_add_tag[OF well_formed, of en h tag] c by simp
  next
    case (RemoveTag h tag)
    then show ?thesis using extends_remove_tag[OF well_formed, of en h tag] c by simp
  next
    case (SetCategory h cat)
    then show ?thesis using extends_set_category[OF well_formed, of en h cat] c by simp
  qed
qed

lemma wf_new_SessionWorker: "well_formed (new_SessionWorker cfg)"
  by (simp add: well_formed_def new_SessionWorker_def alloc_il_def empty_store_def owned_il_def
      owned_sl_def il_refs_def)

lemma run_Cons: "run w (c # cs) = run (step w c) cs"
  by (simp add: run_def)

lemma run_append: "run w (cs @ cs') = run (run w cs) cs'"
  by (simp add: run_def)

lemma wf_run: "well_formed w \<Longrightarrow> well_formed (run w cs)"
proof (induction cs arbitrary: w)
  case Nil
  then show ?case by (simp add: run_def)
next
  case (Cons c cs)
  have "well_formed (step w c)" by (rule extends_wf[OF Cons.prems extends_step[OF Cons.prems]])
  then show ?case unfolding run_Cons by (rule Cons.IH)
qed

lemma stats_kept_by_run:
  "well_formed w \<Longrightarrow> StatsUpdated ss \<in> set (w_events w)
     \<Longrightarrow> read_stats (w_store (run w cs)) ss = read_stats (w_store w) ss"
proof (induction cs arbitrary: w)
  case Nil
  then show ?case by (simp add: run_def)
next
  case (Cons c cs)
  note e = extends_step[OF Cons.prems(1), of c]
  have w1: "well_formed (step w c)" by (rule extends_wf[OF Cons.prems(1) e])
  from e Cons.prems(2) have m: "StatsUpdated ss \<in> set (w_events (step w c))"
    unfolding extends_def by blast
  have "read_stats (w_store (run (step w c) cs)) ss = read_stats (w_store (step w c)) ss"
    by (rule Cons.IH[OF w1 m])
  also have "\<dots> = read_stats (w_store w) ss"
    by (rule extends_read[OF Cons.prems(1) e Cons.prems(2)])
  finally show ?case unfolding run_Cons .
qed

theorem emitted_stats_immutable:
  assumes "StatsUpdated ss \<in> set (w_events (run (new_SessionWorker cfg) cs))"
  shows "read_stats (w_store (run (new_SessionWorker cfg) (cs @ cs'))) ss
           = read_stats (w_store (run (new_SessionWorker cfg) cs)) ss"
  unfolding run_append
  by (rule stats_kept_by_run[OF wf_run[OF wf_new_SessionWorker] assms])

end
